theory Spec2Isabelle
  imports Main
begin

section \<open>The TTS manager of RealTrans: \<^verbatim>\<open>release/2.0/lib/tts_manager.py\<close>\<close>

text \<open>
  The class \<open>TTSManager\<close> drives three collaborators: the file system (temporary
  files), the edge-tts synthesis service and the pygame mixer. The collaborators are
  opaque, so each one is an oracle stored in the state: what a call does is read from
  the oracle, and every call is counted. The methods of the class are translated one by
  one; exceptions are values, and \<open>try\<close>/\<open>except\<close> is a case distinction on them.
\<close>

subsection \<open>Data\<close>

text \<open>A Python \<open>str\<close> is a sequence of code points; a path is a file name.\<close>

type_synonym pystr = "nat list"
type_synonym path = string

text \<open>
  The exceptions the collaborators raise. All of them are subclasses of Python's
  \<open>Exception\<close>, so \<open>except Exception\<close> and a bare \<open>except\<close> both catch them.
\<close>

datatype error =
  PygameError | FileNotFoundError | PermissionError | FileExistsError
  | SynthesisError | ValueError | RuntimeError

text \<open>
  What one call of \<open>communicate.save(temp_path)\<close> does: it returns or raises, and
  leaves the output file absent (\<open>None\<close>) or with so many bytes.
\<close>

datatype save_outcome = Saved "nat option" | SaveRaised "nat option"

text \<open>
  What one call into the pygame mixer does. \<open>init\<close>, \<open>load\<close> and \<open>play\<close> raise on
  \<open>Mixer_error\<close> and succeed otherwise; \<open>get_busy\<close> answers True on \<open>Mixer_busy\<close>,
  False on \<open>Mixer_idle\<close> and raises on \<open>Mixer_error\<close>.
\<close>

datatype mixer_reply = Mixer_idle | Mixer_busy | Mixer_error

text \<open>The calls into the pygame mixer, with their arguments, as the mixer receives them.\<close>

datatype mixer_op = Mixer_init | Music_load path | Music_play | Music_get_busy

text \<open>
  The threads that \<open>speak_async\<close> starts, each with the point it has reached:
  a \<open>tts_worker\<close> that has not run yet, one that awaits \<open>communicate.save\<close>
  (with the text and voice it was called with and its temporary file), a
  \<open>_play_audio_thread\<close> that has not run yet, one that has set \<open>is_playing\<close>, and
  a thread that has returned.
\<close>

datatype thread =
  TtsWorker pystr
  | Synthesizing pystr string path
  | PlayThread path
  | Playing path
  | Finished

text \<open>
  The fields of the \<open>TTSManager\<close> object, then the world it acts on:
  \<^item> \<open>files\<close>: the size of every file that exists;
  \<^item> \<open>locked\<close>: the files that \<open>os.unlink\<close> cannot delete (it raises);
  \<^item> \<open>tmp_names\<close>: the candidate names \<open>tempfile\<close> will draw, in order;
  \<^item> \<open>save_script\<close>, \<open>save_calls\<close>: the outcome of the k-th call of the synthesis
    service, and the number of calls made;
  \<^item> \<open>mixer_script\<close>, \<open>mixer_calls\<close>: the same for the pygame mixer;
  \<^item> \<open>mixer_log\<close>: the calls the mixer has received, oldest first;
  \<^item> \<open>start_script\<close>, \<open>start_calls\<close>: whether the k-th \<open>Thread.start()\<close> succeeds
    (it raises \<open>RuntimeError\<close> when no thread can be started), and the number of
    calls made;
  \<^item> \<open>unlink_calls\<close>: the paths \<open>os.unlink\<close> was called with, oldest first;
  \<^item> \<open>slept_ms\<close>: the time spent in \<open>time.sleep\<close>, in milliseconds;
  \<^item> \<open>threads\<close>: the threads started so far.
\<close>

record state =
  voice :: string
  enabled :: bool
  is_playing :: bool
  temp_files :: "path list"
  files :: "path \<rightharpoonup> nat"
  locked :: "path set"
  tmp_names :: "path list"
  save_script :: "nat \<Rightarrow> save_outcome"
  save_calls :: nat
  mixer_script :: "nat \<Rightarrow> mixer_reply"
  mixer_calls :: nat
  mixer_log :: "mixer_op list"
  start_script :: "nat \<Rightarrow> bool"
  start_calls :: nat
  unlink_calls :: "path list"
  slept_ms :: nat
  threads :: "thread list"

subsection \<open>Statements that may raise\<close>

text \<open>
  A statement maps the state to a result and the state it leaves: \<open>Inr\<close> a value, or
  \<open>Inl\<close> the exception raised. The state survives a raise.
\<close>

type_synonym 'a io = "state \<Rightarrow> (error + 'a) \<times> state"

definition io_return :: "'a \<Rightarrow> 'a io" where
  "io_return x s = (Inr x, s)"

definition io_bind :: "'a io \<Rightarrow> ('a \<Rightarrow> 'b io) \<Rightarrow> 'b io" where
  "io_bind m f s = (case m s of (Inl e, s') \<Rightarrow> (Inl e, s') | (Inr x, s') \<Rightarrow> f x s')"

definition io_try :: "'a io \<Rightarrow> (error \<Rightarrow> 'a io) \<Rightarrow> 'a io" where
  "io_try m h s = (case m s of (Inl e, s') \<Rightarrow> h e s' | (Inr x, s') \<Rightarrow> (Inr x, s'))"

subsection \<open>The collaborators\<close>

text \<open>
  \<open>str.strip()\<close> removes leading and trailing whitespace, which for a Python \<open>str\<close>
  is the code points below.
\<close>

definition py_isspace :: "nat \<Rightarrow> bool" where
  "py_isspace c \<longleftrightarrow>
     (9 \<le> c \<and> c \<le> 13) \<or> (28 \<le> c \<and> c \<le> 32) \<or> c = 133 \<or> c = 160 \<or> c = 5760
     \<or> (8192 \<le> c \<and> c \<le> 8202) \<or> c = 8232 \<or> c = 8233 \<or> c = 8239 \<or> c = 8287
     \<or> c = 12288"

definition strip :: "pystr \<Rightarrow> pystr" where
  "strip t = rev (dropWhile py_isspace (rev (dropWhile py_isspace t)))"

definition os_path_exists :: "path \<Rightarrow> state \<Rightarrow> bool" where
  "os_path_exists p s \<longleftrightarrow> files s p \<noteq> None"

definition os_path_getsize :: "path \<Rightarrow> nat io" where
  "os_path_getsize p s =
     (case files s p of None \<Rightarrow> (Inl FileNotFoundError, s) | Some n \<Rightarrow> (Inr n, s))"

definition os_unlink :: "path \<Rightarrow> unit io" where
  "os_unlink p s =
     (let s' = s\<lparr>unlink_calls := unlink_calls s @ [p]\<rparr> in
      if files s p = None then (Inl FileNotFoundError, s')
      else if p \<in> locked s then (Inl PermissionError, s')
      else (Inr (), s'\<lparr>files := (files s)(p := None)\<rparr>))"

text \<open>
  \<open>tempfile.NamedTemporaryFile(suffix=".mp3", delete=False)\<close> followed by \<open>close()\<close>:
  the candidate names are tried in order, the first one that names no existing file is
  created empty, and the call raises when the candidates run out.
\<close>

fun mkstemp_inner :: "path list \<Rightarrow> path io" where
  "mkstemp_inner [] s = (Inl FileExistsError, s\<lparr>tmp_names := []\<rparr>)"
| "mkstemp_inner (c # cs) s =
     (if files s (c @ ''.mp3'') \<noteq> None then mkstemp_inner cs s
      else (Inr (c @ ''.mp3''),
            s\<lparr>files := (files s)(c @ ''.mp3'' \<mapsto> 0), tmp_names := cs\<rparr>))"

definition NamedTemporaryFile :: "path io" where
  "NamedTemporaryFile s = mkstemp_inner (tmp_names s) s"

text \<open>
  \<open>edge_tts.Communicate(text, voice).save(temp_path)\<close>. The service is opaque: what
  the k-th call does is read from \<open>save_script\<close>, whatever the text and the voice are.
\<close>

definition communicate_save :: "pystr \<Rightarrow> string \<Rightarrow> path \<Rightarrow> unit io" where
  "communicate_save txt v p s =
     (let s' = s\<lparr>save_calls := Suc (save_calls s)\<rparr> in
      case save_script s (save_calls s) of
        Saved f \<Rightarrow> (Inr (), s'\<lparr>files := (files s)(p := f)\<rparr>)
      | SaveRaised f \<Rightarrow> (Inl SynthesisError, s'\<lparr>files := (files s)(p := f)\<rparr>))"

text \<open>
  The calls into pygame: each one is recorded with its argument in \<open>mixer_log\<close> and
  reads the next reply of the mixer.
\<close>

definition mixer_call :: "mixer_op \<Rightarrow> unit io" where
  "mixer_call c s =
     (let s' = s\<lparr>mixer_calls := Suc (mixer_calls s), mixer_log := mixer_log s @ [c]\<rparr> in
      if mixer_script s (mixer_calls s) = Mixer_error then (Inl PygameError, s')
      else (Inr (), s'))"

definition mixer_init :: "unit io" where
  "mixer_init = mixer_call Mixer_init"

definition mixer_music_load :: "path \<Rightarrow> unit io" where
  "mixer_music_load p = mixer_call (Music_load p)"

definition mixer_music_play :: "unit io" where
  "mixer_music_play = mixer_call Music_play"

definition mixer_music_get_busy :: "bool io" where
  "mixer_music_get_busy s =
     (let s' = s\<lparr>mixer_calls := Suc (mixer_calls s),
                 mixer_log := mixer_log s @ [Music_get_busy]\<rparr> in
      case mixer_script s (mixer_calls s) of
        Mixer_error \<Rightarrow> (Inl PygameError, s')
      | Mixer_busy \<Rightarrow> (Inr True, s')
      | Mixer_idle \<Rightarrow> (Inr False, s'))"

definition time_sleep :: "nat \<Rightarrow> state \<Rightarrow> state" where
  "time_sleep ms s = s\<lparr>slept_ms := slept_ms s + ms\<rparr>"

text \<open>\<open>list.remove(x)\<close> deletes the first occurrence and raises when there is none.\<close>

definition temp_files_remove :: "path \<Rightarrow> unit io" where
  "temp_files_remove p s =
     (if p \<in> set (temp_files s) then (Inr (), s\<lparr>temp_files := remove1 p (temp_files s)\<rparr>)
      else (Inl ValueError, s))"

text \<open>
  \<open>threading.Thread(target=..., daemon=True).start()\<close>: the thread is started, or
  the call raises \<open>RuntimeError\<close> and no thread exists.
\<close>

definition thread_start :: "thread \<Rightarrow> unit io" where
  "thread_start t s =
     (let s' = s\<lparr>start_calls := Suc (start_calls s)\<rparr> in
      if start_script s (start_calls s) then (Inr (), s'\<lparr>threads := threads s @ [t]\<rparr>)
      else (Inl RuntimeError, s'))"

subsection \<open>The methods of TTSManager\<close>

text \<open>\<open>__init__\<close>: the fields are set, and the mixer is initialised when enabled.\<close>

definition TTSManager_init :: "string \<Rightarrow> bool \<Rightarrow> unit io" where
  "TTSManager_init v en s =
     (let s0 = s\<lparr>voice := v, enabled := en, is_playing := False, temp_files := []\<rparr> in
      if enabled s0
      then io_try mixer_init (\<lambda>e s'. (Inr (), s'\<lparr>enabled := False\<rparr>)) s0
      else (Inr (), s0))"

text \<open>
  \<open>cleanup\<close>: the loop over \<open>_temp_files\<close>, every iteration in its own
  \<open>try\<close>/\<open>except: pass\<close>, then \<open>_temp_files.clear()\<close>.
\<close>

fun cleanup_loop :: "path list \<Rightarrow> unit io" where
  "cleanup_loop [] s = (Inr (), s)"
| "cleanup_loop (temp_file # rest) s =
     io_bind
       (io_try (\<lambda>s1. if os_path_exists temp_file s1 then os_unlink temp_file s1
                     else (Inr (), s1))
               (\<lambda>e. io_return ()))
       (\<lambda>_. cleanup_loop rest) s"

definition cleanup :: "unit io" where
  "cleanup s =
     io_bind (cleanup_loop (temp_files s)) (\<lambda>_ s1. (Inr (), s1\<lparr>temp_files := []\<rparr>)) s"

text \<open>
  \<open>_synthesize_async\<close>. The part after the temporary file is created: the save (where
  the coroutine is suspended), the registration in \<open>_temp_files\<close>, then the check of
  the output file.
\<close>

definition synth_finish :: "pystr \<Rightarrow> string \<Rightarrow> path \<Rightarrow> path option io" where
  "synth_finish txt v temp_path =
     io_bind (communicate_save txt v temp_path) (\<lambda>_ s1.
       let s2 = s1\<lparr>temp_files := temp_files s1 @ [temp_path]\<rparr> in
       if os_path_exists temp_path s2
       then io_bind (os_path_getsize temp_path)
              (\<lambda>n. io_return (if 0 < n then Some temp_path else None)) s2
       else (Inr None, s2))"

definition synthesize_async :: "pystr \<Rightarrow> path option io" where
  "synthesize_async txt s =
     (if strip txt = [] then (Inr None, s)
      else io_try
             (io_bind NamedTemporaryFile
                (\<lambda>temp_path s1. synth_finish txt (voice s1) temp_path s1))
             (\<lambda>e. io_return None) s)"

text \<open>
  \<open>_play_audio_sync\<close>. The loop \<open>while get_busy(): time.sleep(0.1)\<close> runs for as long
  as the mixer answers busy, so it need not return: \<open>None\<close> is "does not return".
\<close>

partial_function (option) wait_while_busy :: "state \<Rightarrow> ((error + unit) \<times> state) option" where
  "wait_while_busy s =
     (case mixer_music_get_busy s of
        (Inl e, s1) \<Rightarrow> Some (Inl e, s1)
      | (Inr busy, s1) \<Rightarrow>
          if busy then wait_while_busy (time_sleep 100 s1) else Some (Inr (), s1))"

definition play_audio_sync :: "path \<Rightarrow> state \<Rightarrow> ((error + bool) \<times> state) option" where
  "play_audio_sync file_path s =
     (if \<not> os_path_exists file_path s then Some (Inr False, s)
      else case io_bind (mixer_music_load file_path) (\<lambda>_. mixer_music_play) s of
          (Inl e, s1) \<Rightarrow> Some (Inr False, s1)
        | (Inr _, s1) \<Rightarrow>
            (case wait_while_busy s1 of
               None \<Rightarrow> None
             | Some (Inl e, s2) \<Rightarrow> Some (Inr False, s2)
             | Some (Inr _, s2) \<Rightarrow> Some (Inr True, s2)))"

text \<open>
  \<open>_play_audio_thread\<close>: the flag is set, the file is played, the file is deleted and
  forgotten when it is still in \<open>_temp_files\<close> (in a \<open>try\<close>/\<open>except: pass\<close>), and the
  flag is reset. \<open>play_audio_thread_rest\<close> is the method after its first statement.
\<close>

definition play_audio_thread_cleanup :: "path \<Rightarrow> unit io" where
  "play_audio_thread_cleanup file_path =
     io_try (\<lambda>s. if file_path \<in> set (temp_files s)
                  then io_bind (os_unlink file_path) (\<lambda>_. temp_files_remove file_path) s
                  else (Inr (), s))
            (\<lambda>e. io_return ())"

definition play_audio_thread_rest :: "path \<Rightarrow> state \<Rightarrow> ((error + unit) \<times> state) option" where
  "play_audio_thread_rest file_path s =
     (case play_audio_sync file_path s of
        None \<Rightarrow> None
      | Some (Inl e, s1) \<Rightarrow> Some (Inl e, s1)
      | Some (Inr success, s1) \<Rightarrow>
          (case play_audio_thread_cleanup file_path s1 of
             (Inl e, s2) \<Rightarrow> Some (Inl e, s2)
           | (Inr _, s2) \<Rightarrow> Some (Inr (), s2\<lparr>is_playing := False\<rparr>)))"

definition play_audio_thread :: "path \<Rightarrow> state \<Rightarrow> ((error + unit) \<times> state) option" where
  "play_audio_thread file_path s = play_audio_thread_rest file_path (s\<lparr>is_playing := True\<rparr>)"

text \<open>
  \<open>speak_async\<close> and its nested \<open>tts_worker\<close>. \<open>if audio_file:\<close> is Python's truth
  test: neither \<open>None\<close> nor the empty string.
\<close>

definition start_play_thread :: "path option \<Rightarrow> unit io" where
  "start_play_thread audio_file =
     (case audio_file of
        None \<Rightarrow> io_return ()
      | Some f \<Rightarrow> if f \<noteq> [] then thread_start (PlayThread f) else io_return ())"

definition tts_worker :: "pystr \<Rightarrow> unit io" where
  "tts_worker txt =
     io_try (io_bind (synthesize_async txt) start_play_thread) (\<lambda>e. io_return ())"

definition speak_async :: "pystr \<Rightarrow> unit io" where
  "speak_async txt s =
     (if \<not> enabled s \<or> strip txt = [] then (Inr (), s)
      else if is_playing s then (Inr (), s)
      else thread_start (TtsWorker txt) s)"

text \<open>\<open>speak_sync\<close>.\<close>

definition speak_sync_cleanup :: "path \<Rightarrow> unit io" where
  "speak_sync_cleanup audio_file =
     io_try (io_bind (os_unlink audio_file)
               (\<lambda>_ s. if audio_file \<in> set (temp_files s) then temp_files_remove audio_file s
                      else (Inr (), s)))
            (\<lambda>e. io_return ())"

definition speak_sync_body :: "pystr \<Rightarrow> state \<Rightarrow> ((error + bool) \<times> state) option" where
  "speak_sync_body txt s =
     (case synthesize_async txt s of
        (Inl e, s1) \<Rightarrow> Some (Inl e, s1)
      | (Inr None, s1) \<Rightarrow> Some (Inr False, s1)
      | (Inr (Some audio_file), s1) \<Rightarrow>
          if audio_file = [] then Some (Inr False, s1)
          else
            (case play_audio_sync audio_file s1 of
               None \<Rightarrow> None
             | Some (Inl e, s2) \<Rightarrow> Some (Inl e, s2)
             | Some (Inr success, s2) \<Rightarrow>
                 (case speak_sync_cleanup audio_file s2 of
                    (Inl e, s3) \<Rightarrow> Some (Inl e, s3)
                  | (Inr _, s3) \<Rightarrow> Some (Inr success, s3))))"

definition speak_sync :: "pystr \<Rightarrow> state \<Rightarrow> ((error + bool) \<times> state) option" where
  "speak_sync txt s =
     (if \<not> enabled s \<or> strip txt = [] then Some (Inr False, s)
      else case speak_sync_body txt s of
          None \<Rightarrow> None
        | Some (Inl e, s1) \<Rightarrow> Some (Inr False, s1)
        | Some (Inr b, s1) \<Rightarrow> Some (Inr b, s1))"

subsection \<open>The host and the threads, interleaved\<close>

text \<open>
  The host calls \<open>speak_async\<close> or \<open>cleanup\<close>, or the scheduler lets thread \<open>i\<close> run to
  its next suspension point: a \<open>tts_worker\<close> runs until it awaits the save, then until
  it returns; a \<open>_play_audio_thread\<close> sets the flag, then plays, cleans up and returns.
  An event that cannot happen (no such thread, a thread that has returned, a playback
  that does not end) gives \<open>None\<close>. A call of the host that raises leaves the state
  it had reached.
\<close>

datatype event = Call_speak_async pystr | Call_cleanup | Run_thread nat

definition tts_worker_begin :: "pystr \<Rightarrow> state \<Rightarrow> thread \<times> state" where
  "tts_worker_begin txt s =
     (if strip txt = [] then (Finished, s)
      else case NamedTemporaryFile s of
          (Inl e, s1) \<Rightarrow> (Finished, s1)
        | (Inr temp_path, s1) \<Rightarrow> (Synthesizing txt (voice s1) temp_path, s1))"

definition tts_worker_resume :: "pystr \<Rightarrow> string \<Rightarrow> path \<Rightarrow> state \<Rightarrow> state" where
  "tts_worker_resume txt v temp_path s =
     snd (io_try (io_bind (io_try (synth_finish txt v temp_path) (\<lambda>e. io_return None))
                    start_play_thread)
                 (\<lambda>e. io_return ()) s)"

definition set_thread :: "nat \<Rightarrow> thread \<Rightarrow> state \<Rightarrow> state" where
  "set_thread i t s = s\<lparr>threads := (threads s)[i := t]\<rparr>"

fun step :: "event \<Rightarrow> state \<Rightarrow> state option" where
  "step (Call_speak_async txt) s = Some (snd (speak_async txt s))"
| "step Call_cleanup s = Some (snd (cleanup s))"
| "step (Run_thread i) s =
     (if i < length (threads s) then
        (case threads s ! i of
           TtsWorker txt \<Rightarrow>
             (case tts_worker_begin txt s of (t, s1) \<Rightarrow> Some (set_thread i t s1))
         | Synthesizing txt v temp_path \<Rightarrow>
             Some (set_thread i Finished (tts_worker_resume txt v temp_path s))
         | PlayThread file_path \<Rightarrow>
             Some (set_thread i (Playing file_path) (s\<lparr>is_playing := True\<rparr>))
         | Playing file_path \<Rightarrow>
             (case play_audio_thread_rest file_path s of
                None \<Rightarrow> None
              | Some (r, s1) \<Rightarrow> Some (set_thread i Finished s1))
         | Finished \<Rightarrow> None)
      else None)"

fun run :: "event list \<Rightarrow> state \<Rightarrow> state option" where
  "run [] s = Some s"
| "run (e # es) s = (case step e s of None \<Rightarrow> None | Some s1 \<Rightarrow> run es s1)"

subsection \<open>Auxiliary definitions and example states\<close>

text \<open>What one iteration of the loop of \<open>cleanup\<close> does to the state.\<close>

definition unlink_effect :: "path \<Rightarrow> state \<Rightarrow> state" where
  "unlink_effect p s =
     (if files s p = None then s
      else if p \<in> locked s then s\<lparr>unlink_calls := unlink_calls s @ [p]\<rparr>
      else s\<lparr>unlink_calls := unlink_calls s @ [p], files := (files s)(p := None)\<rparr>)"

text \<open>
  A manager that has just been constructed: nothing is pending, the synthesis service
  writes 100 bytes at every call, the mixer answers busy to its third and fourth call
  and idle otherwise, and every thread can be started.
\<close>

definition hello :: pystr where
  "hello = [104, 101, 108, 108, 111]"

definition fresh_state :: state where
  "fresh_state =
     \<lparr>voice = ''ru-RU-DariyaNeural'', enabled = True, is_playing = False, temp_files = [],
      files = Map.empty, locked = {}, tmp_names = [''/tmp/tmpa'', ''/tmp/tmpb''],
      save_script = (\<lambda>k. Saved (Some 100)), save_calls = 0,
      mixer_script = (\<lambda>k. if k = 2 \<or> k = 3 then Mixer_busy else Mixer_idle),
      mixer_calls = 0, mixer_log = [], start_script = (\<lambda>k. True), start_calls = 0,
      unlink_calls = [], slept_ms = 0, threads = []\<rparr>"

text \<open>
  Three tracked paths: the first file cannot be deleted, the second is already missing,
  the third can be deleted.
\<close>

definition sweep_state :: state where
  "sweep_state =
     fresh_state\<lparr>temp_files := [''/tmp/a.mp3'', ''/tmp/b.mp3'', ''/tmp/c.mp3''],
                 files := [''/tmp/a.mp3'' \<mapsto> 100, ''/tmp/c.mp3'' \<mapsto> 100],
                 locked := {''/tmp/a.mp3''}\<rparr>"

text \<open>One audio file of 100 bytes on disk, not tracked.\<close>

definition audio_state :: state where
  "audio_state = fresh_state\<lparr>files := [''/tmp/a.mp3'' \<mapsto> 100]\<rparr>"

text \<open>The same file, tracked in \<open>_temp_files\<close>.\<close>

definition tracked_state :: state where
  "tracked_state = audio_state\<lparr>temp_files := [''/tmp/a.mp3'']\<rparr>"

text \<open>
  The synthesis service returns and leaves an empty file; the synthesis service raises
  and leaves the empty temporary file; the first temporary file cannot be deleted.
\<close>

definition zero_byte_state :: state where
  "zero_byte_state = fresh_state\<lparr>save_script := (\<lambda>k. Saved (Some 0))\<rparr>"

definition failing_state :: state where
  "failing_state = fresh_state\<lparr>save_script := (\<lambda>k. SaveRaised (Some 0))\<rparr>"

definition locked_state :: state where
  "locked_state = fresh_state\<lparr>locked := {''/tmp/tmpa.mp3''}\<rparr>"

text \<open>
  A second text; the state reached when the playback thread of a first call of
  \<open>speak_async\<close> has set \<open>is_playing\<close> (two threads have been started); a mixer that
  raises at every call.
\<close>

definition world :: pystr where
  "world = [119, 111, 114, 108, 100]"

definition playing_state :: state where
  "playing_state =
     fresh_state\<lparr>is_playing := True, temp_files := [''/tmp/tmpa.mp3''],
                 files := [''/tmp/tmpa.mp3'' \<mapsto> 100], tmp_names := [''/tmp/tmpb''],
                 save_calls := 1, start_calls := 2,
                 threads := [Finished, Playing ''/tmp/tmpa.mp3'']\<rparr>"

definition broken_mixer_state :: state where
  "broken_mixer_state = fresh_state\<lparr>mixer_script := (\<lambda>k. Mixer_error)\<rparr>"

text \<open>No thread can be started.\<close>

definition no_thread_state :: state where
  "no_thread_state = fresh_state\<lparr>start_script := (\<lambda>k. False)\<rparr>"

section \<open>Properties\<close>

subsection \<open>The cleanup sweep\<close>

lemma cleanup_loop_Cons:
  "cleanup_loop (p # ps) s = cleanup_loop ps (unlink_effect p s)"
  by (simp add: io_bind_def io_try_def io_return_def os_path_exists_def os_unlink_def
      unlink_effect_def Let_def)

declare cleanup_loop.simps(2) [simp del]

lemma cleanup_loop_fst: "fst (cleanup_loop ps s) = Inr ()"
  by (induction ps arbitrary: s) (simp_all add: cleanup_loop_Cons)

lemma cleanup_loop_files:
  "files (snd (cleanup_loop ps s)) =
     (\<lambda>p. if p \<in> set ps \<and> p \<notin> locked s then None else files s p)"
proof (induction ps arbitrary: s)
  case Nil
  then show ?case by simp
next
  case (Cons q ps)
  show ?case
    unfolding cleanup_loop_Cons Cons.IH
    by (auto simp: unlink_effect_def fun_eq_iff)
qed

lemma cleanup_loop_frame:
  "snd (cleanup_loop ps s) =
     s\<lparr>files := files (snd (cleanup_loop ps s)),
       unlink_calls := unlink_calls (snd (cleanup_loop ps s))\<rparr>"
proof (induction ps arbitrary: s)
  case Nil
  then show ?case by simp
next
  case (Cons q ps)
  show ?case
    apply (subst (1) cleanup_loop_Cons)
    apply (subst Cons.IH)
    apply (simp add: cleanup_loop_Cons unlink_effect_def)
    done
qed

lemma cleanup_loop_unlink_mono:
  "set (unlink_calls s) \<subseteq> set (unlink_calls (snd (cleanup_loop ps s)))"
proof (induction ps arbitrary: s)
  case Nil
  then show ?case by simp
next
  case (Cons q ps)
  have "set (unlink_calls s) \<subseteq> set (unlink_calls (unlink_effect q s))"
    by (auto simp: unlink_effect_def)
  with Cons.IH [of "unlink_effect q s"] show ?case
    by (auto simp: cleanup_loop_Cons)
qed

lemma cleanup_loop_unlink_calls:
  "p \<in> set ps \<Longrightarrow> files s p \<noteq> None \<Longrightarrow>
     p \<in> set (unlink_calls (snd (cleanup_loop ps s)))"
proof (induction ps arbitrary: s)
  case Nil
  then show ?case by simp
next
  case (Cons q ps)
  show ?case
  proof (cases "p = q")
    case True
    have "p \<in> set (unlink_calls (unlink_effect q s))"
      using Cons.prems True by (auto simp: unlink_effect_def)
    then show ?thesis
      using cleanup_loop_unlink_mono [of "unlink_effect q s" ps]
      by (auto simp: cleanup_loop_Cons)
  next
    case False
    with Cons.prems have "p \<in> set ps" "files (unlink_effect q s) p \<noteq> None"
      by (auto simp: unlink_effect_def)
    then show ?thesis
      using Cons.IH by (simp add: cleanup_loop_Cons)
  qed
qed

lemma cleanup_eq:
  "cleanup s =
     (Inr (),
      s\<lparr>files := (\<lambda>p. if p \<in> set (temp_files s) \<and> p \<notin> locked s then None else files s p),
        unlink_calls := unlink_calls (snd (cleanup_loop (temp_files s) s)),
        temp_files := []\<rparr>)"
proof -
  obtain r s1 where c: "cleanup_loop (temp_files s) s = (r, s1)"
    by (cases "cleanup_loop (temp_files s) s")
  have r: "r = Inr ()"
    using cleanup_loop_fst [of "temp_files s" s] c by simp
  have "s1 = s\<lparr>files := files s1, unlink_calls := unlink_calls s1\<rparr>"
    using cleanup_loop_frame [of "temp_files s" s] c by simp
  moreover have "files s1 =
      (\<lambda>p. if p \<in> set (temp_files s) \<and> p \<notin> locked s then None else files s p)"
    using cleanup_loop_files [of "temp_files s" s] c by simp
  ultimately show ?thesis
    using c r by (simp add: cleanup_def io_bind_def)
qed

text \<open>
  Claim C6, as amended. \<open>cleanup\<close> never raises, from any state, and leaves
  \<open>_temp_files\<close> empty. For every tracked path whose file existed, \<open>os.unlink\<close> was
  called, whatever happened to the paths before it (a missing file, a deletion that
  raised), and the file is gone unless its own deletion raised.
\<close>

theorem cleanup_sweep:
  "fst (cleanup s) = Inr () \<and> temp_files (snd (cleanup s)) = [] \<and>
   (\<forall>p \<in> set (temp_files s). files s p \<noteq> None \<longrightarrow>
      p \<in> set (unlink_calls (snd (cleanup s))) \<and>
      (p \<notin> locked s \<longrightarrow> files (snd (cleanup s)) p = None))"
  by (simp add: cleanup_eq cleanup_loop_unlink_calls)

theorem cleanup_sweep_witness:
  "''/tmp/c.mp3'' \<in> set (temp_files sweep_state) \<and> files sweep_state ''/tmp/c.mp3'' \<noteq> None \<and>
   ''/tmp/c.mp3'' \<notin> locked sweep_state \<and>
   fst (cleanup sweep_state) = Inr () \<and> temp_files (snd (cleanup sweep_state)) = [] \<and>
   ''/tmp/c.mp3'' \<in> set (unlink_calls (snd (cleanup sweep_state))) \<and>
   files (snd (cleanup sweep_state)) ''/tmp/c.mp3'' = None"
  using cleanup_sweep [of sweep_state]
  by (simp add: sweep_state_def fresh_state_def)

text \<open>
  Claim C6 as stated fails: a tracked file that exists and whose deletion raises is
  still on disk after \<open>cleanup\<close>.
\<close>

theorem cleanup_locked_file_remains:
  "''/tmp/a.mp3'' \<in> set (temp_files sweep_state) \<and> files sweep_state ''/tmp/a.mp3'' = Some 100 \<and>
   files (snd (cleanup sweep_state)) ''/tmp/a.mp3'' = Some 100"
  by (simp add: cleanup_eq sweep_state_def fresh_state_def)

text \<open>
  Claim C10. \<open>cleanup\<close> is idempotent: from any state, a second \<open>cleanup\<close> returns the
  same result and the same state as the first one left; and on a state whose
  \<open>_temp_files\<close> is empty, \<open>cleanup\<close> changes nothing.
\<close>

theorem cleanup_idempotent:
  "cleanup (snd (cleanup s)) = cleanup s \<and>
   (temp_files s = [] \<longrightarrow> cleanup s = (Inr (), s))"
proof
  show "cleanup (snd (cleanup s)) = cleanup s"
    by (simp add: cleanup_eq)
  show "temp_files s = [] \<longrightarrow> cleanup s = (Inr (), s)"
    by (simp add: cleanup_def io_bind_def)
qed

theorem cleanup_idempotent_witness:
  "temp_files fresh_state = [] \<and> cleanup fresh_state = (Inr (), fresh_state) \<and>
   cleanup (snd (cleanup sweep_state)) = cleanup sweep_state"
  using cleanup_idempotent [of fresh_state] cleanup_idempotent [of sweep_state]
  by (simp add: fresh_state_def)

subsection \<open>Blank text and the enabled flag\<close>

lemma strip_empty_iff: "strip t = [] \<longleftrightarrow> (\<forall>c\<in>set t. py_isspace c)"
proof -
  have "dropWhile py_isspace (rev (dropWhile py_isspace t)) = []
        \<longleftrightarrow> dropWhile py_isspace t = []"
  proof (cases "dropWhile py_isspace t")
    case Nil
    show ?thesis unfolding Nil by simp
  next
    case (Cons x xs)
    then have "\<not> py_isspace x"
      using hd_dropWhile [of py_isspace t] by auto
    with Cons show ?thesis by (auto simp: dropWhile_eq_Nil_conv)
  qed
  then show ?thesis by (simp add: strip_def dropWhile_eq_Nil_conv)
qed

text \<open>
  Claim C7. When the text is empty or consists of whitespace only (whatever \<open>enabled\<close>
  is), and when \<open>enabled\<close> is false (whatever the text is), \<open>speak_async\<close> returns
  with the state as it was, so no thread is started, and \<open>speak_sync\<close> returns False
  with the state as it was: the call counters of the synthesis service and of the mixer
  have not moved.
\<close>

theorem blank_or_disabled_noop:
  "\<not> enabled s \<or> (\<forall>c\<in>set txt. py_isspace c) \<Longrightarrow>
     speak_async txt s = (Inr (), s) \<and> speak_sync txt s = Some (Inr False, s)"
  by (auto simp: speak_async_def speak_sync_def strip_empty_iff)

theorem blank_or_disabled_noop_witness:
  "py_isspace 32 \<and> py_isspace 9 \<and> py_isspace 10 \<and> enabled fresh_state \<and>
   speak_async [32, 9, 10] fresh_state = (Inr (), fresh_state) \<and>
   speak_sync [32, 9, 10] fresh_state = Some (Inr False, fresh_state) \<and>
   \<not> enabled (fresh_state\<lparr>enabled := False\<rparr>) \<and> \<not> (\<forall>c\<in>set hello. py_isspace c) \<and>
   speak_async hello (fresh_state\<lparr>enabled := False\<rparr>) = (Inr (), fresh_state\<lparr>enabled := False\<rparr>) \<and>
   speak_sync hello (fresh_state\<lparr>enabled := False\<rparr>) = Some (Inr False, fresh_state\<lparr>enabled := False\<rparr>)"
  using blank_or_disabled_noop [of fresh_state "[32, 9, 10]"]
    blank_or_disabled_noop [of "fresh_state\<lparr>enabled := False\<rparr>" hello]
  by (simp add: py_isspace_def fresh_state_def hello_def)

subsection \<open>Synchronous playback\<close>

lemma wait_while_busy_returns:
  "(\<forall>i<n. mixer_script s (mixer_calls s + i) = Mixer_busy) \<Longrightarrow>
   mixer_script s (mixer_calls s + n) \<noteq> Mixer_busy \<Longrightarrow>
   wait_while_busy s =
     Some (if mixer_script s (mixer_calls s + n) = Mixer_error then Inl PygameError else Inr (),
           s\<lparr>mixer_calls := mixer_calls s + n + 1,
             mixer_log := mixer_log s @ replicate (Suc n) Music_get_busy,
             slept_ms := slept_ms s + 100 * n\<rparr>)"
proof (induction n arbitrary: s)
  case 0
  then show ?case
    by (subst wait_while_busy.simps)
       (simp add: mixer_music_get_busy_def Let_def split: mixer_reply.splits)
next
  case (Suc n)
  let ?s1 = "time_sleep 100 (s\<lparr>mixer_calls := Suc (mixer_calls s),
                         mixer_log := mixer_log s @ [Music_get_busy]\<rparr>)"
  have busy: "mixer_script s (mixer_calls s) = Mixer_busy"
    using Suc.prems(1) by (metis add.right_neutral zero_less_Suc)
  have step: "wait_while_busy s = wait_while_busy ?s1"
    by (subst wait_while_busy.simps) (simp add: mixer_music_get_busy_def Let_def busy)
  have "\<forall>i<n. mixer_script ?s1 (mixer_calls ?s1 + i) = Mixer_busy"
    using Suc.prems(1) by (auto simp: time_sleep_def)
  moreover have "mixer_script ?s1 (mixer_calls ?s1 + n) \<noteq> Mixer_busy"
    using Suc.prems(2) by (simp add: time_sleep_def)
  ultimately show ?case
    using Suc.IH [of ?s1] by (simp add: step time_sleep_def)
qed

lemma wait_while_busy_Some:
  "wait_while_busy s = Some y \<Longrightarrow> \<exists>i. mixer_script s (mixer_calls s + i) \<noteq> Mixer_busy"
proof (induction rule: wait_while_busy.raw_induct [rotated 1, consumes 1])
  case (1 f s y)
  show ?case
  proof (cases "mixer_script s (mixer_calls s) = Mixer_busy")
    case True
    with 1(2) have "f (time_sleep 100 (s\<lparr>mixer_calls := Suc (mixer_calls s),
                         mixer_log := mixer_log s @ [Music_get_busy]\<rparr>)) = Some y"
      by (simp add: mixer_music_get_busy_def Let_def)
    from 1(1) [OF this] obtain i where
      "mixer_script s (Suc (mixer_calls s) + i) \<noteq> Mixer_busy"
      by (auto simp: time_sleep_def)
    then have "mixer_script s (mixer_calls s + Suc i) \<noteq> Mixer_busy" by simp
    then show ?thesis by blast
  next
    case False
    then have "mixer_script s (mixer_calls s + 0) \<noteq> Mixer_busy" by simp
    then show ?thesis by blast
  qed
qed

lemma wait_while_busy_never:
  "\<forall>i. mixer_script s (mixer_calls s + i) = Mixer_busy \<Longrightarrow> wait_while_busy s = None"
  using wait_while_busy_Some [of s] by (cases "wait_while_busy s") auto


lemma wait_while_busy_busy:
  "mixer_script s (mixer_calls s) = Mixer_busy \<Longrightarrow>
     wait_while_busy s = wait_while_busy (time_sleep 100 (s\<lparr>mixer_calls := Suc (mixer_calls s),
                         mixer_log := mixer_log s @ [Music_get_busy]\<rparr>))"
  by (subst wait_while_busy.simps) (simp add: mixer_music_get_busy_def Let_def)

lemma wait_while_busy_idle:
  "mixer_script s (mixer_calls s) = Mixer_idle \<Longrightarrow>
     wait_while_busy s =
       Some (Inr (), s\<lparr>mixer_calls := Suc (mixer_calls s),
                       mixer_log := mixer_log s @ [Music_get_busy]\<rparr>)"
  by (subst wait_while_busy.simps) (simp add: mixer_music_get_busy_def Let_def)

lemma wait_while_busy_error:
  "mixer_script s (mixer_calls s) = Mixer_error \<Longrightarrow>
     wait_while_busy s =
       Some (Inl PygameError, s\<lparr>mixer_calls := Suc (mixer_calls s),
                                mixer_log := mixer_log s @ [Music_get_busy]\<rparr>)"
  by (subst wait_while_busy.simps) (simp add: mixer_music_get_busy_def Let_def)

lemma load_play_eq:
  "io_bind (mixer_music_load p) (\<lambda>_. mixer_music_play) s =
     (if mixer_script s (mixer_calls s) = Mixer_error
      then (Inl PygameError,
            s\<lparr>mixer_calls := Suc (mixer_calls s), mixer_log := mixer_log s @ [Music_load p]\<rparr>)
      else if mixer_script s (Suc (mixer_calls s)) = Mixer_error
      then (Inl PygameError,
            s\<lparr>mixer_calls := Suc (Suc (mixer_calls s)),
              mixer_log := mixer_log s @ [Music_load p, Music_play]\<rparr>)
      else (Inr (),
            s\<lparr>mixer_calls := Suc (Suc (mixer_calls s)),
              mixer_log := mixer_log s @ [Music_load p, Music_play]\<rparr>))"
  by (simp add: io_bind_def mixer_music_load_def mixer_music_play_def mixer_call_def Let_def)

lemma play_audio_sync_missing:
  "files s p = None \<Longrightarrow> play_audio_sync p s = Some (Inr False, s)"
  by (simp add: play_audio_sync_def os_path_exists_def)

lemma play_audio_sync_load_error:
  "files s p \<noteq> None \<Longrightarrow> mixer_script s (mixer_calls s) = Mixer_error \<Longrightarrow>
     play_audio_sync p s =
           Some (Inr False, s\<lparr>mixer_calls := mixer_calls s + 1,
                              mixer_log := mixer_log s @ [Music_load p]\<rparr>)"
  by (simp add: play_audio_sync_def os_path_exists_def load_play_eq)

lemma play_audio_sync_play_error:
  "files s p \<noteq> None \<Longrightarrow> mixer_script s (mixer_calls s) \<noteq> Mixer_error \<Longrightarrow>
   mixer_script s (mixer_calls s + 1) = Mixer_error \<Longrightarrow>
     play_audio_sync p s =
           Some (Inr False, s\<lparr>mixer_calls := mixer_calls s + 2,
                              mixer_log := mixer_log s @ [Music_load p, Music_play]\<rparr>)"
  by (simp add: play_audio_sync_def os_path_exists_def load_play_eq)

lemma play_audio_sync_polls:
  assumes "files s p \<noteq> None"
    and "mixer_script s (mixer_calls s) \<noteq> Mixer_error"
    and "mixer_script s (mixer_calls s + 1) \<noteq> Mixer_error"
    and "\<forall>i<n. mixer_script s (mixer_calls s + 2 + i) = Mixer_busy"
    and "mixer_script s (mixer_calls s + 2 + n) \<noteq> Mixer_busy"
  shows "play_audio_sync p s =
     Some (Inr (mixer_script s (mixer_calls s + 2 + n) = Mixer_idle),
           s\<lparr>mixer_calls := mixer_calls s + n + 3,
             mixer_log := mixer_log s @ Music_load p # Music_play # replicate (Suc n) Music_get_busy,
             slept_ms := slept_ms s + 100 * n\<rparr>)"
proof -
  let ?s1 = "s\<lparr>mixer_calls := Suc (Suc (mixer_calls s)),
                  mixer_log := mixer_log s @ [Music_load p, Music_play]\<rparr>"
  have "wait_while_busy ?s1 =
     Some (if mixer_script ?s1 (mixer_calls ?s1 + n) = Mixer_error then Inl PygameError else Inr (),
           ?s1\<lparr>mixer_calls := mixer_calls ?s1 + n + 1,
               mixer_log := mixer_log ?s1 @ replicate (Suc n) Music_get_busy,
               slept_ms := slept_ms ?s1 + 100 * n\<rparr>)"
    using assms(4,5) by (intro wait_while_busy_returns) simp_all
  then show ?thesis
    using assms(1,2,3,5)
    by (cases "mixer_script s (Suc (Suc (mixer_calls s + n)))")
       (simp_all add: play_audio_sync_def os_path_exists_def load_play_eq)
qed

lemma play_audio_sync_forever:
  assumes "files s p \<noteq> None"
    and "mixer_script s (mixer_calls s) \<noteq> Mixer_error"
    and "mixer_script s (mixer_calls s + 1) \<noteq> Mixer_error"
    and "\<forall>i. mixer_script s (mixer_calls s + 2 + i) = Mixer_busy"
  shows "play_audio_sync p s = None"
proof -
  let ?s1 = "s\<lparr>mixer_calls := Suc (Suc (mixer_calls s)),
                  mixer_log := mixer_log s @ [Music_load p, Music_play]\<rparr>"
  have "wait_while_busy ?s1 = None"
    using assms(4) by (intro wait_while_busy_never) simp
  then show ?thesis
    using assms(1,2,3) by (simp add: play_audio_sync_def os_path_exists_def load_play_eq)
qed

lemma play_audio_sync_no_raise:
  "play_audio_sync p s = Some (r, s') \<Longrightarrow> \<exists>b. r = Inr b"
  by (auto simp: play_audio_sync_def split: if_splits prod.splits sum.splits option.splits)

text \<open>
  Claim C8. \<open>_play_audio_sync\<close> returns False at once, calling nothing, when the file
  does not exist. Otherwise the mixer receives \<open>load\<close> of this very file and, when
  that did not raise, \<open>play\<close>, in this order; a raise of either gives False with no
  further call. Then it polls \<open>get_busy\<close>: after \<open>n\<close> busy answers, each followed by
  a sleep of 100 ms, the first other answer ends the loop, and the result is True
  exactly when that answer is idle and not an error. A mixer that stays busy forever
  keeps the caller blocked. No exception leaves the method.
\<close>

theorem play_audio_sync_contract:
  "(files s p = None \<longrightarrow> play_audio_sync p s = Some (Inr False, s)) \<and>
   (files s p \<noteq> None \<longrightarrow>
      (mixer_script s (mixer_calls s) = Mixer_error \<longrightarrow>
         play_audio_sync p s =
           Some (Inr False, s\<lparr>mixer_calls := mixer_calls s + 1,
                              mixer_log := mixer_log s @ [Music_load p]\<rparr>)) \<and>
      (mixer_script s (mixer_calls s) \<noteq> Mixer_error \<and>
       mixer_script s (mixer_calls s + 1) = Mixer_error \<longrightarrow>
         play_audio_sync p s =
           Some (Inr False, s\<lparr>mixer_calls := mixer_calls s + 2,
                              mixer_log := mixer_log s @ [Music_load p, Music_play]\<rparr>)) \<and>
      (mixer_script s (mixer_calls s) \<noteq> Mixer_error \<and>
       mixer_script s (mixer_calls s + 1) \<noteq> Mixer_error \<longrightarrow>
         (\<forall>n. (\<forall>i<n. mixer_script s (mixer_calls s + 2 + i) = Mixer_busy) \<and>
              mixer_script s (mixer_calls s + 2 + n) \<noteq> Mixer_busy \<longrightarrow>
              play_audio_sync p s =
                Some (Inr (mixer_script s (mixer_calls s + 2 + n) = Mixer_idle),
                      s\<lparr>mixer_calls := mixer_calls s + n + 3,
                        mixer_log := mixer_log s @ Music_load p # Music_play #
                                     replicate (Suc n) Music_get_busy,
                        slept_ms := slept_ms s + 100 * n\<rparr>)) \<and>
         ((\<forall>i. mixer_script s (mixer_calls s + 2 + i) = Mixer_busy) \<longrightarrow>
              play_audio_sync p s = None))) \<and>
   (\<forall>e s'. play_audio_sync p s \<noteq> Some (Inl e, s'))"
  using play_audio_sync_missing [of s p] play_audio_sync_load_error [of s p]
    play_audio_sync_play_error [of s p] play_audio_sync_polls [of s p]
    play_audio_sync_forever [of s p] play_audio_sync_no_raise [of p s]
  by blast


theorem play_audio_sync_contract_witness:
  "files audio_state ''/tmp/a.mp3'' \<noteq> None \<and>
   mixer_script audio_state (mixer_calls audio_state) \<noteq> Mixer_error \<and>
   mixer_script audio_state (mixer_calls audio_state + 1) \<noteq> Mixer_error \<and>
   mixer_script audio_state (mixer_calls audio_state + 2 + 0) = Mixer_busy \<and>
   mixer_script audio_state (mixer_calls audio_state + 2 + 1) = Mixer_busy \<and>
   mixer_script audio_state (mixer_calls audio_state + 2 + 2) = Mixer_idle \<and>
   play_audio_sync ''/tmp/a.mp3'' audio_state =
     Some (Inr True,
           audio_state\<lparr>mixer_calls := 5,
                       mixer_log := [Music_load ''/tmp/a.mp3'', Music_play, Music_get_busy,
                                     Music_get_busy, Music_get_busy],
                       slept_ms := 200\<rparr>) \<and>
   files audio_state ''/tmp/b.mp3'' = None \<and>
   play_audio_sync ''/tmp/b.mp3'' audio_state = Some (Inr False, audio_state)"
proof -
  have pre: "files audio_state ''/tmp/a.mp3'' \<noteq> None"
    "mixer_script audio_state (mixer_calls audio_state) \<noteq> Mixer_error"
    "mixer_script audio_state (mixer_calls audio_state + 1) \<noteq> Mixer_error"
    "\<forall>i<2. mixer_script audio_state (mixer_calls audio_state + 2 + i) = Mixer_busy"
    "mixer_script audio_state (mixer_calls audio_state + 2 + 2) \<noteq> Mixer_busy"
    by (auto simp: audio_state_def fresh_state_def)
  have "play_audio_sync ''/tmp/a.mp3'' audio_state =
      Some (Inr (mixer_script audio_state (mixer_calls audio_state + 2 + 2) = Mixer_idle),
            audio_state\<lparr>mixer_calls := mixer_calls audio_state + 2 + 3,
                        mixer_log := mixer_log audio_state @ Music_load ''/tmp/a.mp3'' #
                                     Music_play # replicate (Suc 2) Music_get_busy,
                        slept_ms := slept_ms audio_state + 100 * 2\<rparr>)"
    using play_audio_sync_contract [of audio_state "''/tmp/a.mp3''"] pre by blast
  moreover have "files audio_state ''/tmp/b.mp3'' = None"
    by (simp add: audio_state_def fresh_state_def)
  moreover from this have "play_audio_sync ''/tmp/b.mp3'' audio_state = Some (Inr False, audio_state)"
    using play_audio_sync_contract [of audio_state "''/tmp/b.mp3''"] by blast
  ultimately show ?thesis
    using pre by (simp add: audio_state_def fresh_state_def numeral_3_eq_3)
qed

subsection \<open>The playback worker\<close>

lemma wait_while_busy_terminates:
  assumes "\<exists>i. mixer_script s (mixer_calls s + i) \<noteq> Mixer_busy"
  shows "\<exists>n. (\<forall>i<n. mixer_script s (mixer_calls s + i) = Mixer_busy) \<and>
             mixer_script s (mixer_calls s + n) \<noteq> Mixer_busy \<and>
    wait_while_busy s =
     Some (if mixer_script s (mixer_calls s + n) = Mixer_error then Inl PygameError else Inr (),
           s\<lparr>mixer_calls := mixer_calls s + n + 1,
             mixer_log := mixer_log s @ replicate (Suc n) Music_get_busy,
             slept_ms := slept_ms s + 100 * n\<rparr>)"
proof -
  define n where "n = (LEAST i. mixer_script s (mixer_calls s + i) \<noteq> Mixer_busy)"
  have a: "mixer_script s (mixer_calls s + n) \<noteq> Mixer_busy"
    unfolding n_def using assms by (rule LeastI_ex)
  have b: "\<forall>i<n. mixer_script s (mixer_calls s + i) = Mixer_busy"
    unfolding n_def using not_less_Least by blast
  from wait_while_busy_returns [OF b a] a b show ?thesis by blast
qed

lemma wait_while_busy_frame:
  assumes "wait_while_busy s = Some (r, s')"
  shows "\<exists>m l t. s' = s\<lparr>mixer_calls := m, mixer_log := l, slept_ms := t\<rparr>"
proof -
  obtain n where "wait_while_busy s =
     Some (if mixer_script s (mixer_calls s + n) = Mixer_error then Inl PygameError else Inr (),
           s\<lparr>mixer_calls := mixer_calls s + n + 1,
             mixer_log := mixer_log s @ replicate (Suc n) Music_get_busy,
             slept_ms := slept_ms s + 100 * n\<rparr>)"
    using wait_while_busy_terminates [OF wait_while_busy_Some [OF assms]] by blast
  with assms show ?thesis by auto
qed

lemma play_audio_sync_frame:
  assumes "play_audio_sync p s = Some (r, s')"
  shows "\<exists>m l t. s' = s\<lparr>mixer_calls := m, mixer_log := l, slept_ms := t\<rparr>"
proof -
  have triv: "\<exists>m l t. s = s\<lparr>mixer_calls := m, mixer_log := l, slept_ms := t\<rparr>"
    by (rule exI [of _ "mixer_calls s"], rule exI [of _ "mixer_log s"],
        rule exI [of _ "slept_ms s"]) simp
  have one: "\<And>k j. \<exists>m l t. s\<lparr>mixer_calls := k, mixer_log := j\<rparr> =
      s\<lparr>mixer_calls := m, mixer_log := l, slept_ms := t\<rparr>"
    by (rule exI, rule exI, rule exI [of _ "slept_ms s"]) simp
  show ?thesis
  proof (cases "os_path_exists p s")
    case False
    with assms have "s' = s" by (simp add: play_audio_sync_def)
    with triv show ?thesis by simp
  next
    case True
    show ?thesis
    proof (cases "io_bind (mixer_music_load p) (\<lambda>_. mixer_music_play) s")
      case (Pair q s1)
      show ?thesis
      proof (cases q)
        case (Inl e)
        with Pair True assms have "s' = s1" by (simp add: play_audio_sync_def)
        with Pair Inl have "\<exists>k j. s' = s\<lparr>mixer_calls := k, mixer_log := j\<rparr>"
          by (auto simp: load_play_eq split: if_splits)
        with one show ?thesis by auto
      next
        case (Inr u)
        from Pair Inr have s1: "s1 = s\<lparr>mixer_calls := Suc (Suc (mixer_calls s)),
            mixer_log := mixer_log s @ [Music_load p, Music_play]\<rparr>"
          by (auto simp: load_play_eq split: if_splits)
        from Pair Inr True assms obtain q2 where "wait_while_busy s1 = Some (q2, s')"
          by (auto simp: play_audio_sync_def split: option.splits sum.splits)
        from wait_while_busy_frame [OF this] s1 show ?thesis by auto
      qed
    qed
  qed
qed

lemma play_audio_sync_terminates:
  assumes "\<exists>i. mixer_script s (mixer_calls s + 2 + i) \<noteq> Mixer_busy"
  shows "\<exists>b s'. play_audio_sync p s = Some (Inr b, s')"
proof -
  let ?s1 = "s\<lparr>mixer_calls := Suc (Suc (mixer_calls s)),
                  mixer_log := mixer_log s @ [Music_load p, Music_play]\<rparr>"
  have "\<exists>i. mixer_script ?s1 (mixer_calls ?s1 + i) \<noteq> Mixer_busy"
    using assms by simp
  from wait_while_busy_terminates [OF this]
  obtain y where "wait_while_busy ?s1 = Some y" by blast
  then show ?thesis
    by (cases y) (auto simp: play_audio_sync_def load_play_eq split: sum.splits)
qed

lemma play_audio_thread_cleanup_eq:
  "play_audio_thread_cleanup p s =
     (Inr (),
      if p \<in> set (temp_files s)
      then (if files s p \<noteq> None \<and> p \<notin> locked s
            then s\<lparr>unlink_calls := unlink_calls s @ [p], files := (files s)(p := None),
                   temp_files := remove1 p (temp_files s)\<rparr>
            else s\<lparr>unlink_calls := unlink_calls s @ [p]\<rparr>)
      else s)"
  by (simp add: play_audio_thread_cleanup_def io_try_def io_bind_def io_return_def
      os_unlink_def temp_files_remove_def Let_def)

lemma speak_sync_cleanup_eq:
  "speak_sync_cleanup p s =
     (Inr (),
      if files s p \<noteq> None \<and> p \<notin> locked s
      then s\<lparr>unlink_calls := unlink_calls s @ [p], files := (files s)(p := None),
             temp_files := remove1 p (temp_files s)\<rparr>
      else s\<lparr>unlink_calls := unlink_calls s @ [p]\<rparr>)"
  by (simp add: speak_sync_cleanup_def io_try_def io_bind_def io_return_def
      os_unlink_def temp_files_remove_def Let_def remove1_idem)

lemma play_audio_thread_eq:
  "play_audio_thread p s =
     (case play_audio_sync p (s\<lparr>is_playing := True\<rparr>) of
        None \<Rightarrow> None
      | Some (r, s1) \<Rightarrow>
          Some (Inr (), snd (play_audio_thread_cleanup p s1)\<lparr>is_playing := False\<rparr>))"
  by (auto simp: play_audio_thread_def play_audio_thread_rest_def play_audio_thread_cleanup_eq
      split: option.splits sum.splits dest: play_audio_sync_no_raise)

text \<open>
  Claim C9, as amended. Whenever \<open>_play_audio_thread\<close> finishes, whatever
  \<open>_play_audio_sync\<close> returned, it raises nothing and \<open>is_playing\<close> is False. If the
  path is in \<open>_temp_files\<close>, \<open>os.unlink\<close> was called on it once: when the deletion
  succeeds the file is gone and one occurrence of the path is removed, and when it
  raises (file missing or not deletable) the files and \<open>_temp_files\<close> are as before. If
  the path is not in \<open>_temp_files\<close>, no deletion is attempted and nothing changes. The
  method finishes whenever the mixer stops answering busy.
\<close>

theorem play_audio_thread_exit:
  "(\<forall>r s'. play_audio_thread p s = Some (r, s') \<longrightarrow>
      r = Inr () \<and> \<not> is_playing s' \<and>
      (p \<in> set (temp_files s) \<longrightarrow>
         unlink_calls s' = unlink_calls s @ [p] \<and>
         (files s p \<noteq> None \<and> p \<notin> locked s \<longrightarrow>
            files s' = (files s)(p := None) \<and> temp_files s' = remove1 p (temp_files s)) \<and>
         (files s p = None \<or> p \<in> locked s \<longrightarrow>
            files s' = files s \<and> temp_files s' = temp_files s)) \<and>
      (p \<notin> set (temp_files s) \<longrightarrow>
         unlink_calls s' = unlink_calls s \<and> files s' = files s \<and>
         temp_files s' = temp_files s)) \<and>
   ((\<exists>i. mixer_script s (mixer_calls s + 2 + i) \<noteq> Mixer_busy) \<longrightarrow>
      (\<exists>s'. play_audio_thread p s = Some (Inr (), s')))"
proof (intro conjI allI impI)
  assume "\<exists>i. mixer_script s (mixer_calls s + 2 + i) \<noteq> Mixer_busy"
  then have "\<exists>i. mixer_script (s\<lparr>is_playing := True\<rparr>)
      (mixer_calls (s\<lparr>is_playing := True\<rparr>) + 2 + i) \<noteq> Mixer_busy"
    by simp
  from play_audio_sync_terminates [OF this, of p]
  show "\<exists>s'. play_audio_thread p s = Some (Inr (), s')"
    by (auto simp: play_audio_thread_eq)
next
  fix r s'
  assume run: "play_audio_thread p s = Some (r, s')"
  then obtain q s1 where ps: "play_audio_sync p (s\<lparr>is_playing := True\<rparr>) = Some (q, s1)"
    and r: "r = Inr ()"
    and s': "s' = snd (play_audio_thread_cleanup p s1)\<lparr>is_playing := False\<rparr>"
    by (auto simp: play_audio_thread_eq split: option.splits)
  from play_audio_sync_frame [OF ps] obtain m l t where
    s1: "s1 = s\<lparr>is_playing := True, mixer_calls := m, mixer_log := l, slept_ms := t\<rparr>"
    by auto
  show "r = Inr ()" by (rule r)
  show "\<not> is_playing s'" by (simp add: s')
  {
    assume "p \<in> set (temp_files s)"
    then show "unlink_calls s' = unlink_calls s @ [p]"
      by (simp add: s' s1 play_audio_thread_cleanup_eq)
  next
    assume "p \<in> set (temp_files s)" "files s p \<noteq> None \<and> p \<notin> locked s"
    then show "files s' = (files s)(p := None)" "temp_files s' = remove1 p (temp_files s)"
      by (simp_all add: s' s1 play_audio_thread_cleanup_eq)
  next
    assume "p \<in> set (temp_files s)" "files s p = None \<or> p \<in> locked s"
    then show "files s' = files s" "temp_files s' = temp_files s"
      by (auto simp add: s' s1 play_audio_thread_cleanup_eq)
  next
    assume "p \<notin> set (temp_files s)"
    then show "unlink_calls s' = unlink_calls s" "files s' = files s"
      "temp_files s' = temp_files s"
      by (simp_all add: s' s1 play_audio_thread_cleanup_eq)
  }
qed


theorem play_audio_thread_exit_witness:
  "''/tmp/a.mp3'' \<in> set (temp_files tracked_state) \<and>
   files tracked_state ''/tmp/a.mp3'' \<noteq> None \<and> ''/tmp/a.mp3'' \<notin> locked tracked_state \<and>
   (\<exists>i. mixer_script tracked_state (mixer_calls tracked_state + 2 + i) \<noteq> Mixer_busy) \<and>
   (\<exists>s'. play_audio_thread ''/tmp/a.mp3'' tracked_state = Some (Inr (), s') \<and>
         \<not> is_playing s' \<and> unlink_calls s' = [''/tmp/a.mp3''] \<and>
         files s' ''/tmp/a.mp3'' = None \<and> temp_files s' = [])"
proof -
  have pre: "''/tmp/a.mp3'' \<in> set (temp_files tracked_state)"
    "files tracked_state ''/tmp/a.mp3'' \<noteq> None \<and> ''/tmp/a.mp3'' \<notin> locked tracked_state"
    by (simp_all add: tracked_state_def audio_state_def fresh_state_def)
  have "mixer_script tracked_state (mixer_calls tracked_state + 2 + 2) \<noteq> Mixer_busy"
    by (simp add: tracked_state_def audio_state_def fresh_state_def)
  then have settles:
    "\<exists>i. mixer_script tracked_state (mixer_calls tracked_state + 2 + i) \<noteq> Mixer_busy"
    by (rule exI)
  note inst = play_audio_thread_exit [of "''/tmp/a.mp3''" tracked_state]
  from inst settles obtain s' where
    run: "play_audio_thread ''/tmp/a.mp3'' tracked_state = Some (Inr (), s')"
    by blast
  from inst run pre have "\<not> is_playing s'"
    "unlink_calls s' = unlink_calls tracked_state @ [''/tmp/a.mp3'']"
    "files s' = (files tracked_state)(''/tmp/a.mp3'' := None)"
    "temp_files s' = remove1 ''/tmp/a.mp3'' (temp_files tracked_state)"
    by blast+
  then have "\<not> is_playing s' \<and> unlink_calls s' = [''/tmp/a.mp3''] \<and>
         files s' ''/tmp/a.mp3'' = None \<and> temp_files s' = []"
    by (simp add: tracked_state_def audio_state_def fresh_state_def)
  with run pre settles show ?thesis by blast
qed

text \<open>
  Claim C9 as stated fails: for a path that is not in \<open>_temp_files\<close>, the worker plays
  the file and returns without any call of \<open>os.unlink\<close>, and the file stays on disk.
\<close>

theorem play_audio_thread_untracked_file_kept:
  "''/tmp/a.mp3'' \<notin> set (temp_files audio_state) \<and>
   play_audio_thread ''/tmp/a.mp3'' audio_state =
     Some (Inr (),
           audio_state\<lparr>mixer_calls := 5,
                       mixer_log := [Music_load ''/tmp/a.mp3'', Music_play, Music_get_busy,
                                     Music_get_busy, Music_get_busy],
                       slept_ms := 200\<rparr>) \<and>
   unlink_calls
     (audio_state\<lparr>mixer_calls := 5,
                 mixer_log := [Music_load ''/tmp/a.mp3'', Music_play, Music_get_busy,
                                     Music_get_busy, Music_get_busy],
                 slept_ms := 200\<rparr>) = [] \<and>
   files
     (audio_state\<lparr>mixer_calls := 5,
                 mixer_log := [Music_load ''/tmp/a.mp3'', Music_play, Music_get_busy,
                                     Music_get_busy, Music_get_busy],
                 slept_ms := 200\<rparr>) ''/tmp/a.mp3'' = Some 100"
proof -
  let ?s = "audio_state\<lparr>is_playing := True\<rparr>"
  have "play_audio_sync ''/tmp/a.mp3'' ?s =
      Some (Inr (mixer_script ?s (mixer_calls ?s + 2 + 2) = Mixer_idle),
            ?s\<lparr>mixer_calls := mixer_calls ?s + 2 + 3,
               mixer_log := mixer_log ?s @ Music_load ''/tmp/a.mp3'' # Music_play #
                            replicate (Suc 2) Music_get_busy,
               slept_ms := slept_ms ?s + 100 * 2\<rparr>)"
    by (rule play_audio_sync_polls) (auto simp: audio_state_def fresh_state_def)
  then show ?thesis
    by (simp add: play_audio_thread_eq play_audio_thread_cleanup_eq audio_state_def
        fresh_state_def numeral_3_eq_3)
qed

subsection \<open>Synthesis\<close>

lemma mkstemp_inner_Inr:
  "mkstemp_inner cs s = (Inr tp, s1) \<Longrightarrow>
     files s tp = None \<and> tp \<noteq> [] \<and>
     (\<exists>rest. s1 = s\<lparr>files := (files s)(tp \<mapsto> 0), tmp_names := rest\<rparr>)"
  by (induction cs) (auto split: if_splits)

lemma mkstemp_inner_Inl:
  "mkstemp_inner cs s = (Inl e, s1) \<Longrightarrow> s1 = s\<lparr>tmp_names := []\<rparr>"
  by (induction cs) (auto split: if_splits)

lemma synth_finish_eq:
  "synth_finish txt v tp s =
     (case save_script s (save_calls s) of
        SaveRaised f \<Rightarrow>
          (Inl SynthesisError, s\<lparr>save_calls := Suc (save_calls s), files := (files s)(tp := f)\<rparr>)
      | Saved f \<Rightarrow>
          (Inr (case f of None \<Rightarrow> None | Some n \<Rightarrow> if 0 < n then Some tp else None),
           s\<lparr>save_calls := Suc (save_calls s), files := (files s)(tp := f),
             temp_files := temp_files s @ [tp]\<rparr>))"
  by (simp add: synth_finish_def io_bind_def communicate_save_def Let_def os_path_exists_def
      os_path_getsize_def io_return_def split: save_outcome.splits option.splits)

lemma synthesize_async_eq:
  "synthesize_async txt s =
     (if strip txt = [] then (Inr None, s)
      else case NamedTemporaryFile s of
          (Inl e, s1) \<Rightarrow> (Inr None, s1)
        | (Inr tp, s1) \<Rightarrow>
            (case save_script s (save_calls s) of
               SaveRaised f \<Rightarrow>
                 (Inr None,
                  s1\<lparr>save_calls := Suc (save_calls s), files := (files s1)(tp := f)\<rparr>)
             | Saved f \<Rightarrow>
                 (Inr (case f of None \<Rightarrow> None | Some n \<Rightarrow> if 0 < n then Some tp else None),
                  s1\<lparr>save_calls := Suc (save_calls s), files := (files s1)(tp := f),
                     temp_files := temp_files s @ [tp]\<rparr>)))"
proof (cases "NamedTemporaryFile s")
  case (Pair q s1)
  show ?thesis
  proof (cases q)
    case (Inl e)
    with Pair show ?thesis
      by (simp add: synthesize_async_def io_try_def io_bind_def io_return_def)
  next
    case (Inr tp)
    with Pair obtain rest where "s1 = s\<lparr>files := (files s)(tp \<mapsto> 0), tmp_names := rest\<rparr>"
      using mkstemp_inner_Inr [of "tmp_names s" s tp s1] by (auto simp: NamedTemporaryFile_def)
    with Pair Inr show ?thesis
      by (simp add: synthesize_async_def io_try_def io_bind_def io_return_def synth_finish_eq
          split: save_outcome.splits)
  qed
qed

text \<open>Rewrite rules that run the methods on a concrete state.\<close>

lemmas eval_simps =
  speak_sync_def speak_sync_body_def synthesize_async_eq NamedTemporaryFile_def
  play_audio_sync_def load_play_eq os_path_exists_def
  wait_while_busy_busy wait_while_busy_idle wait_while_busy_error time_sleep_def
  speak_sync_cleanup_eq play_audio_thread_eq play_audio_thread_cleanup_eq
  strip_def py_isspace_def hello_def fresh_state_def

subsection \<open>A failed synthesis in \<^verbatim>\<open>speak_sync\<close>\<close>

text \<open>
  Claim C1 fails on the code. With a synthesis service whose save raises,
  \<open>speak_sync\<close> on the text "hello" returns False, nothing is tracked, and the temporary
  file created for the call, which did not exist before, is left on disk.
\<close>

theorem speak_sync_failed_save_leaves_file:
  "files failing_state ''/tmp/tmpa.mp3'' = None \<and>
   speak_sync hello failing_state =
     Some (Inr False,
           failing_state\<lparr>files := [''/tmp/tmpa.mp3'' \<mapsto> 0], tmp_names := [''/tmp/tmpb''],
                         save_calls := 1\<rparr>) \<and>
   temp_files failing_state = []"
  by (simp add: failing_state_def eval_simps)

theorem speak_sync_failed_save_leaves_file_witness:
  "enabled failing_state \<and> strip hello \<noteq> [] \<and>
   save_script failing_state (save_calls failing_state) = SaveRaised (Some 0) \<and>
   map_option fst (speak_sync hello failing_state) = Some (Inr False) \<and>
   map_option (\<lambda>r. files (snd r) ''/tmp/tmpa.mp3'') (speak_sync hello failing_state) =
     Some (Some 0) \<and>
   map_option (\<lambda>r. temp_files (snd r)) (speak_sync hello failing_state) = Some []"
  using speak_sync_failed_save_leaves_file
  by (simp add: failing_state_def fresh_state_def strip_def py_isspace_def hello_def)

text \<open>
  With a save that returns and writes nothing, \<open>speak_sync\<close> returns False as well; the
  empty file stays on disk and its path stays in \<open>_temp_files\<close>.
\<close>

lemma speak_sync_zero_bytes_leaves_file:
  "speak_sync hello zero_byte_state =
     Some (Inr False,
      zero_byte_state\<lparr>files := [''/tmp/tmpa.mp3'' \<mapsto> 0], tmp_names := [''/tmp/tmpb''],
                      save_calls := 1, temp_files := [''/tmp/tmpa.mp3'']\<rparr>)"
  by (simp add: zero_byte_state_def eval_simps)

subsection \<open>Registration and removal of temporary files\<close>

lemma speak_sync_fresh:
  "speak_sync hello fresh_state =
     Some (Inr True,
           fresh_state\<lparr>files := Map.empty, tmp_names := [''/tmp/tmpb''],
                       save_calls := 1, mixer_calls := 5,
                       mixer_log := [Music_load ''/tmp/tmpa.mp3'', Music_play, Music_get_busy,
                                     Music_get_busy, Music_get_busy],
                       slept_ms := 200,
                       unlink_calls := [''/tmp/tmpa.mp3'']\<rparr>)"
  by (simp add: eval_simps)

lemma play_audio_thread_temp_files:
  assumes "play_audio_thread p s = Some (r, s')"
  shows "temp_files s' =
     (if p \<in> set (temp_files s) \<and> files s p \<noteq> None \<and> p \<notin> locked s
      then remove1 p (temp_files s) else temp_files s)"
proof -
  from assms obtain q s1 where ps: "play_audio_sync p (s\<lparr>is_playing := True\<rparr>) = Some (q, s1)"
    and s': "s' = snd (play_audio_thread_cleanup p s1)\<lparr>is_playing := False\<rparr>"
    by (auto simp: play_audio_thread_eq split: option.splits)
  from play_audio_sync_frame [OF ps] obtain m l t where
    "s1 = s\<lparr>is_playing := True, mixer_calls := m, mixer_log := l, slept_ms := t\<rparr>"
    by auto
  then show ?thesis
    by (simp add: s' play_audio_thread_cleanup_eq)
qed

text \<open>
  Claim C2, as amended. \<open>_synthesize_async\<close> appends the temporary path to
  \<open>_temp_files\<close> exactly when the save returned without raising, before the output
  file is checked: a blank text, a temporary file that cannot be created and a save
  that raises add nothing, and a save that returns adds the path whether the step then
  answers the path (file present and not empty) or \<open>None\<close>. The playback worker
  removes one occurrence of its path when the path is tracked and the deletion of the
  file succeeds, and leaves \<open>_temp_files\<close> as it was otherwise; \<open>cleanup\<close> empties
  \<open>_temp_files\<close>.
\<close>

theorem synthesize_registers_after_save:
  "(strip txt = [] \<or> (\<exists>e s1. NamedTemporaryFile s = (Inl e, s1)) \<longrightarrow>
      fst (synthesize_async txt s) = Inr None \<and>
      temp_files (snd (synthesize_async txt s)) = temp_files s) \<and>
   (\<forall>tp s1 f. strip txt \<noteq> [] \<and> NamedTemporaryFile s = (Inr tp, s1) \<and>
        save_script s (save_calls s) = SaveRaised f \<longrightarrow>
      fst (synthesize_async txt s) = Inr None \<and>
      temp_files (snd (synthesize_async txt s)) = temp_files s) \<and>
   (\<forall>tp s1 f. strip txt \<noteq> [] \<and> NamedTemporaryFile s = (Inr tp, s1) \<and>
        save_script s (save_calls s) = Saved f \<longrightarrow>
      fst (synthesize_async txt s) =
        Inr (case f of None \<Rightarrow> None | Some n \<Rightarrow> if 0 < n then Some tp else None) \<and>
      temp_files (snd (synthesize_async txt s)) = temp_files s @ [tp]) \<and>
   (\<forall>r s'. play_audio_thread p s = Some (r, s') \<longrightarrow>
      temp_files s' =
        (if p \<in> set (temp_files s) \<and> files s p \<noteq> None \<and> p \<notin> locked s
         then remove1 p (temp_files s) else temp_files s)) \<and>
   temp_files (snd (cleanup s)) = []"
proof (intro conjI allI impI)
  assume "strip txt = [] \<or> (\<exists>e s1. NamedTemporaryFile s = (Inl e, s1))"
  then show "fst (synthesize_async txt s) = Inr None"
    "temp_files (snd (synthesize_async txt s)) = temp_files s"
    using mkstemp_inner_Inl [of "tmp_names s" s]
    by (auto simp: synthesize_async_eq NamedTemporaryFile_def)
next
  fix tp s1 f
  assume a: "strip txt \<noteq> [] \<and> NamedTemporaryFile s = (Inr tp, s1) \<and>
        save_script s (save_calls s) = SaveRaised f"
  then obtain rest where "s1 = s\<lparr>files := (files s)(tp \<mapsto> 0), tmp_names := rest\<rparr>"
    using mkstemp_inner_Inr [of "tmp_names s" s tp s1] by (auto simp: NamedTemporaryFile_def)
  with a show "fst (synthesize_async txt s) = Inr None"
    "temp_files (snd (synthesize_async txt s)) = temp_files s"
    by (simp_all add: synthesize_async_eq)
next
  fix tp s1 f
  assume a: "strip txt \<noteq> [] \<and> NamedTemporaryFile s = (Inr tp, s1) \<and>
        save_script s (save_calls s) = Saved f"
  then show "fst (synthesize_async txt s) =
        Inr (case f of None \<Rightarrow> None | Some n \<Rightarrow> if 0 < n then Some tp else None)"
    "temp_files (snd (synthesize_async txt s)) = temp_files s @ [tp]"
    by (simp_all add: synthesize_async_eq)
next
  fix r s'
  assume "play_audio_thread p s = Some (r, s')"
  then show "temp_files s' =
        (if p \<in> set (temp_files s) \<and> files s p \<noteq> None \<and> p \<notin> locked s
         then remove1 p (temp_files s) else temp_files s)"
    by (rule play_audio_thread_temp_files)
next
  show "temp_files (snd (cleanup s)) = []"
    by (simp add: cleanup_eq)
qed

lemma play_audio_thread_tracked:
  "play_audio_thread ''/tmp/a.mp3'' tracked_state =
     Some (Inr (), tracked_state\<lparr>files := Map.empty, temp_files := [], mixer_calls := 5,
                    mixer_log := [Music_load ''/tmp/a.mp3'', Music_play, Music_get_busy,
                                     Music_get_busy, Music_get_busy],
                    slept_ms := 200, unlink_calls := [''/tmp/a.mp3'']\<rparr>)"
  by (simp add: tracked_state_def audio_state_def eval_simps)

theorem synthesize_registers_after_save_witness:
  "strip hello \<noteq> [] \<and>
   NamedTemporaryFile fresh_state =
     (Inr ''/tmp/tmpa.mp3'',
      fresh_state\<lparr>files := [''/tmp/tmpa.mp3'' \<mapsto> 0], tmp_names := [''/tmp/tmpb'']\<rparr>) \<and>
   save_script fresh_state (save_calls fresh_state) = Saved (Some 100) \<and>
   fst (synthesize_async hello fresh_state) = Inr (Some ''/tmp/tmpa.mp3'') \<and>
   temp_files (snd (synthesize_async hello fresh_state)) = [''/tmp/tmpa.mp3''] \<and>
   ''/tmp/a.mp3'' \<in> set (temp_files tracked_state) \<and>
   files tracked_state ''/tmp/a.mp3'' \<noteq> None \<and> ''/tmp/a.mp3'' \<notin> locked tracked_state \<and>
   (\<exists>s'. play_audio_thread ''/tmp/a.mp3'' tracked_state = Some (Inr (), s') \<and>
         temp_files s' = [])"
proof -
  have pre: "strip hello \<noteq> [] \<and>
     NamedTemporaryFile fresh_state =
       (Inr ''/tmp/tmpa.mp3'',
        fresh_state\<lparr>files := [''/tmp/tmpa.mp3'' \<mapsto> 0], tmp_names := [''/tmp/tmpb'']\<rparr>) \<and>
     save_script fresh_state (save_calls fresh_state) = Saved (Some 100)"
    by (simp add: NamedTemporaryFile_def strip_def py_isspace_def hello_def fresh_state_def)
  from synthesize_registers_after_save [of hello fresh_state] pre
  have "fst (synthesize_async hello fresh_state) =
          Inr (case Some (100::nat) of None \<Rightarrow> None
               | Some n \<Rightarrow> if 0 < n then Some ''/tmp/tmpa.mp3'' else None) \<and>
        temp_files (snd (synthesize_async hello fresh_state)) =
          temp_files fresh_state @ [''/tmp/tmpa.mp3'']"
    by blast
  then have reg: "fst (synthesize_async hello fresh_state) = Inr (Some ''/tmp/tmpa.mp3'') \<and>
      temp_files (snd (synthesize_async hello fresh_state)) = [''/tmp/tmpa.mp3'']"
    by (simp add: fresh_state_def)
  have tr: "''/tmp/a.mp3'' \<in> set (temp_files tracked_state) \<and>
     files tracked_state ''/tmp/a.mp3'' \<noteq> None \<and> ''/tmp/a.mp3'' \<notin> locked tracked_state"
    by (simp add: tracked_state_def audio_state_def fresh_state_def)
  from synthesize_registers_after_save [of hello tracked_state "''/tmp/a.mp3''"]
    play_audio_thread_tracked tr
  have "temp_files (tracked_state\<lparr>files := Map.empty, temp_files := [], mixer_calls := 5,
                    mixer_log := [Music_load ''/tmp/a.mp3'', Music_play, Music_get_busy,
                                     Music_get_busy, Music_get_busy],
                    slept_ms := 200, unlink_calls := [''/tmp/a.mp3'']\<rparr>) =
        remove1 ''/tmp/a.mp3'' (temp_files tracked_state)"
    by presburger
  then have "temp_files (tracked_state\<lparr>files := Map.empty, temp_files := [], mixer_calls := 5,
                    mixer_log := [Music_load ''/tmp/a.mp3'', Music_play, Music_get_busy,
                                     Music_get_busy, Music_get_busy],
                    slept_ms := 200, unlink_calls := [''/tmp/a.mp3'']\<rparr>) = []"
    by simp
  with play_audio_thread_tracked pre reg tr show ?thesis by blast
qed


text \<open>
  Claim C2 as stated fails: when the save returns and leaves a zero-byte file, the step
  answers \<open>None\<close> and the path is in \<open>_temp_files\<close> all the same, because the path is
  appended before the file is checked.
\<close>

theorem synthesize_zero_bytes_registered:
  "synthesize_async hello zero_byte_state =
     (Inr None,
      zero_byte_state\<lparr>files := [''/tmp/tmpa.mp3'' \<mapsto> 0], tmp_names := [''/tmp/tmpb''],
                      save_calls := 1, temp_files := [''/tmp/tmpa.mp3'']\<rparr>)"
  by (simp add: zero_byte_state_def eval_simps)

subsection \<open>A successful \<^verbatim>\<open>speak_sync\<close>\<close>

lemma speak_sync_True:
  assumes "speak_sync txt s = Some (Inr True, s')"
  shows "\<exists>p n rest m l t.
     NamedTemporaryFile s =
       (Inr p, s\<lparr>files := (files s)(p \<mapsto> 0), tmp_names := rest\<rparr>) \<and>
     files s p = None \<and> save_script s (save_calls s) = Saved (Some n) \<and> 0 < n \<and>
     s' = snd (speak_sync_cleanup p
            (s\<lparr>files := (files s)(p \<mapsto> n), tmp_names := rest,
               save_calls := Suc (save_calls s), temp_files := temp_files s @ [p],
               mixer_calls := m, mixer_log := l, slept_ms := t\<rparr>))"
proof -
  from assms have ne: "strip txt \<noteq> []"
    by (auto simp: speak_sync_def split: if_splits)
  from assms obtain p s1 s2 where
    syn: "synthesize_async txt s = (Inr (Some p), s1)" and
    play: "play_audio_sync p s1 = Some (Inr True, s2)" and
    s': "s' = snd (speak_sync_cleanup p s2)"
    by (auto simp: speak_sync_def speak_sync_body_def speak_sync_cleanup_eq
        split: if_splits prod.splits sum.splits option.splits)
  from syn ne obtain s0 f where
    tmp: "NamedTemporaryFile s = (Inr p, s0)" and
    sav: "save_script s (save_calls s) = Saved f" and
    f: "(case f of None \<Rightarrow> None | Some n \<Rightarrow> if 0 < n then Some p else None) = Some p" and
    s1: "s1 = s0\<lparr>save_calls := Suc (save_calls s), files := (files s0)(p := f),
                temp_files := temp_files s @ [p]\<rparr>"
    by (auto simp: synthesize_async_eq
        split: prod.splits sum.splits save_outcome.splits option.splits if_splits)
  from f obtain n where n: "f = Some n" "0 < n"
    by (auto split: option.splits if_splits)
  from tmp obtain rest where
    fresh: "files s p = None" and
    s0: "s0 = s\<lparr>files := (files s)(p \<mapsto> 0), tmp_names := rest\<rparr>"
    using mkstemp_inner_Inr [of "tmp_names s" s p s0] by (auto simp: NamedTemporaryFile_def)
  from play_audio_sync_frame [OF play] obtain m l t where
    s2: "s2 = s1\<lparr>mixer_calls := m, mixer_log := l, slept_ms := t\<rparr>" by blast
  have "s2 = s\<lparr>files := (files s)(p \<mapsto> n), tmp_names := rest,
               save_calls := Suc (save_calls s), temp_files := temp_files s @ [p],
               mixer_calls := m, mixer_log := l, slept_ms := t\<rparr>"
    by (simp add: s2 s1 s0 n)
  with tmp s0 fresh sav n s' show ?thesis by blast
qed

text \<open>
  Claim C5, as amended. When \<open>speak_sync\<close> returns True, \<open>os.unlink\<close> was called once
  more, on the temporary file of this call. If that file can be deleted, it no longer
  exists afterwards, and its path is absent from \<open>_temp_files\<close> provided it was not
  tracked already before the call. If the deletion raises, the file is still on disk
  and its path is still tracked.
\<close>

theorem speak_sync_success_deletes:
  "speak_sync txt s = Some (Inr True, s') \<Longrightarrow>
     \<exists>p s1. NamedTemporaryFile s = (Inr p, s1) \<and>
       unlink_calls s' = unlink_calls s @ [p] \<and>
       (p \<notin> locked s \<longrightarrow>
          files s' p = None \<and> (p \<notin> set (temp_files s) \<longrightarrow> p \<notin> set (temp_files s'))) \<and>
       (p \<in> locked s \<longrightarrow> files s' p \<noteq> None \<and> p \<in> set (temp_files s'))"
proof -
  assume "speak_sync txt s = Some (Inr True, s')"
  from speak_sync_True [OF this] obtain p n rest m l t where
    tmp: "NamedTemporaryFile s =
       (Inr p, s\<lparr>files := (files s)(p \<mapsto> 0), tmp_names := rest\<rparr>)" and
    s': "s' = snd (speak_sync_cleanup p
            (s\<lparr>files := (files s)(p \<mapsto> n), tmp_names := rest,
               save_calls := Suc (save_calls s), temp_files := temp_files s @ [p],
               mixer_calls := m, mixer_log := l, slept_ms := t\<rparr>))"
    by blast
  have "unlink_calls s' = unlink_calls s @ [p]"
    by (simp add: s' speak_sync_cleanup_eq)
  moreover have "p \<notin> locked s \<longrightarrow>
      files s' p = None \<and> (p \<notin> set (temp_files s) \<longrightarrow> p \<notin> set (temp_files s'))"
    by (simp add: s' speak_sync_cleanup_eq remove1_append)
  moreover have "p \<in> locked s \<longrightarrow> files s' p \<noteq> None \<and> p \<in> set (temp_files s')"
    by (simp add: s' speak_sync_cleanup_eq)
  ultimately show ?thesis using tmp by blast
qed

theorem speak_sync_success_deletes_witness:
  "speak_sync hello fresh_state =
     Some (Inr True,
           fresh_state\<lparr>files := Map.empty, tmp_names := [''/tmp/tmpb''],
                       save_calls := 1, mixer_calls := 5,
                       mixer_log := [Music_load ''/tmp/tmpa.mp3'', Music_play, Music_get_busy,
                                     Music_get_busy, Music_get_busy],
                       slept_ms := 200,
                       unlink_calls := [''/tmp/tmpa.mp3'']\<rparr>) \<and>
   (\<exists>p s1. NamedTemporaryFile fresh_state = (Inr p, s1) \<and> p \<notin> locked fresh_state \<and>
      p \<notin> set (temp_files fresh_state) \<and>
      files (fresh_state\<lparr>files := Map.empty, tmp_names := [''/tmp/tmpb''],
                       save_calls := 1, mixer_calls := 5,
                       mixer_log := [Music_load ''/tmp/tmpa.mp3'', Music_play, Music_get_busy,
                                     Music_get_busy, Music_get_busy],
                       slept_ms := 200,
                       unlink_calls := [''/tmp/tmpa.mp3'']\<rparr>) p = None \<and>
      p \<notin> set (temp_files (fresh_state\<lparr>files := Map.empty, tmp_names := [''/tmp/tmpb''],
                       save_calls := 1, mixer_calls := 5,
                       mixer_log := [Music_load ''/tmp/tmpa.mp3'', Music_play, Music_get_busy,
                                     Music_get_busy, Music_get_busy],
                       slept_ms := 200,
                       unlink_calls := [''/tmp/tmpa.mp3'']\<rparr>)))"
proof -
  from speak_sync_success_deletes [OF speak_sync_fresh]
  obtain p s1 where "NamedTemporaryFile fresh_state = (Inr p, s1)" by blast
  moreover have "p \<notin> locked fresh_state" "p \<notin> set (temp_files fresh_state)"
    by (simp_all add: fresh_state_def)
  ultimately show ?thesis
    using speak_sync_fresh by (auto simp: fresh_state_def)
qed

text \<open>
  Claim C5 as stated fails: when the deletion of the played file raises, \<open>speak_sync\<close>
  still returns True, and the file stays on disk and in \<open>_temp_files\<close>.
\<close>

theorem speak_sync_locked_file_remains:
  "speak_sync hello locked_state =
     Some (Inr True,
           locked_state\<lparr>files := [''/tmp/tmpa.mp3'' \<mapsto> 100], tmp_names := [''/tmp/tmpb''],
                       save_calls := 1, mixer_calls := 5,
                       mixer_log := [Music_load ''/tmp/tmpa.mp3'', Music_play, Music_get_busy,
                                     Music_get_busy, Music_get_busy],
                       slept_ms := 200,
                       unlink_calls := [''/tmp/tmpa.mp3''],
                       temp_files := [''/tmp/tmpa.mp3'']\<rparr>)"
  by (simp add: locked_state_def eval_simps)

subsection \<open>Exceptions that reach the host\<close>

lemma synthesize_async_mixer:
  "mixer_script (snd (synthesize_async txt s)) = mixer_script s"
proof (cases "NamedTemporaryFile s")
  case (Pair q s1)
  show ?thesis
  proof (cases q)
    case (Inl e)
    with Pair show ?thesis
      using mkstemp_inner_Inl [of "tmp_names s" s e s1]
      by (simp add: synthesize_async_eq NamedTemporaryFile_def)
  next
    case (Inr tp)
    with Pair obtain rest where "s1 = s\<lparr>files := (files s)(tp \<mapsto> 0), tmp_names := rest\<rparr>"
      using mkstemp_inner_Inr [of "tmp_names s" s tp s1] by (auto simp: NamedTemporaryFile_def)
    with Pair Inr show ?thesis
      by (simp add: synthesize_async_eq split: save_outcome.splits)
  qed
qed

lemma synthesize_async_no_raise: "\<exists>a. fst (synthesize_async txt s) = Inr a"
  by (simp add: synthesize_async_eq split: prod.splits sum.splits save_outcome.splits)

lemma speak_sync_no_raise: "speak_sync txt s \<noteq> Some (Inl e, s')"
  by (simp add: speak_sync_def split: option.splits prod.splits sum.splits)

lemma speak_sync_terminates:
  assumes "\<forall>k. \<exists>i. mixer_script s (k + i) \<noteq> Mixer_busy"
  shows "\<exists>b s'. speak_sync txt s = Some (Inr b, s')"
proof -
  obtain a s1 where syn: "synthesize_async txt s = (Inr a, s1)"
    using synthesize_async_no_raise [of "txt" s] by (cases "synthesize_async txt s") auto
  have "mixer_script s1 = mixer_script s"
    using synthesize_async_mixer [of "txt" s] syn by simp
  moreover from assms have "\<exists>i. mixer_script s (mixer_calls s1 + 2 + i) \<noteq> Mixer_busy"
    by blast
  ultimately have "\<exists>i. mixer_script s1 (mixer_calls s1 + 2 + i) \<noteq> Mixer_busy"
    by simp
  then have play: "\<exists>b s'. play_audio_sync p s1 = Some (Inr b, s')" for p
    by (rule play_audio_sync_terminates)
  have "\<exists>r s'. speak_sync_body txt s = Some (r, s')"
  proof (cases a)
    case None
    with syn show ?thesis by (simp add: speak_sync_body_def)
  next
    case (Some p)
    from play [of p] obtain b s2 where "play_audio_sync p s1 = Some (Inr b, s2)"
      by blast
    with syn Some show ?thesis
      by (simp add: speak_sync_body_def speak_sync_cleanup_eq)
  qed
  then obtain r s' where "speak_sync_body txt s = Some (r, s')" by blast
  then show ?thesis
    by (cases r) (auto simp: speak_sync_def)
qed

lemma tts_worker_no_raise: "fst (tts_worker txt s) = Inr ()"
  by (simp add: tts_worker_def io_try_def io_return_def split: prod.splits sum.splits)

lemma speak_async_raises_iff:
  "fst (speak_async txt s) =
     (if enabled s \<and> strip txt \<noteq> [] \<and> \<not> is_playing s \<and> \<not> start_script s (start_calls s)
      then Inl RuntimeError else Inr ())"
  by (simp add: speak_async_def thread_start_def Let_def)

text \<open>
  What holds of the entry points. \<open>__init__\<close> always returns, and the manager it
  leaves is enabled exactly when it was asked to be and the mixer could be initialised:
  a failing initialisation only turns \<open>enabled\<close> off. \<open>cleanup\<close> returns nothing, from
  every state. \<open>speak_sync\<close> never ends in an exception, and it returns a boolean
  whenever the mixer does not stay busy forever. \<open>speak_async\<close> raises exactly when it
  gets as far as starting its thread and the thread cannot be started; the
  \<open>tts_worker\<close> thread, which starts the playback thread inside its \<open>try\<close>, never
  raises.
\<close>

lemma entry_points_raise_only_at_thread_start:
  "fst (TTSManager_init v en s) = Inr () \<and>
   enabled (snd (TTSManager_init v en s)) =
     (en \<and> mixer_script s (mixer_calls s) \<noteq> Mixer_error) \<and>
   fst (speak_async txt s) =
     (if enabled s \<and> strip txt \<noteq> [] \<and> \<not> is_playing s \<and> \<not> start_script s (start_calls s)
      then Inl RuntimeError else Inr ()) \<and>
   fst (tts_worker txt s) = Inr () \<and>
   fst (cleanup s) = Inr () \<and>
   (\<forall>e s'. speak_sync txt s \<noteq> Some (Inl e, s')) \<and>
   ((\<forall>k. \<exists>i. mixer_script s (k + i) \<noteq> Mixer_busy) \<longrightarrow>
      (\<exists>b s'. speak_sync txt s = Some (Inr b, s')))"
proof (intro conjI allI impI)
  show "fst (TTSManager_init v en s) = Inr ()"
    by (simp add: TTSManager_init_def io_try_def mixer_init_def mixer_call_def Let_def)
  show "enabled (snd (TTSManager_init v en s)) =
     (en \<and> mixer_script s (mixer_calls s) \<noteq> Mixer_error)"
    by (simp add: TTSManager_init_def io_try_def mixer_init_def mixer_call_def Let_def)
  show "fst (speak_async txt s) =
     (if enabled s \<and> strip txt \<noteq> [] \<and> \<not> is_playing s \<and> \<not> start_script s (start_calls s)
      then Inl RuntimeError else Inr ())"
    by (rule speak_async_raises_iff)
  show "fst (tts_worker txt s) = Inr ()"
    by (rule tts_worker_no_raise)
  show "fst (cleanup s) = Inr ()"
    by (simp add: cleanup_eq)
  show "speak_sync txt s \<noteq> Some (Inl e, s')" for e s'
    by (rule speak_sync_no_raise)
  show "\<exists>b s'. speak_sync txt s = Some (Inr b, s')"
    if "\<forall>k. \<exists>i. mixer_script s (k + i) \<noteq> Mixer_busy"
    using that by (rule speak_sync_terminates)
qed

text \<open>
  Claim C4 fails on the code. \<open>speak_async\<close> calls \<open>tts_thread.start()\<close> outside every
  \<open>try\<close>: on an enabled manager that is not playing, with the text "hello", when no
  thread can be started, the call ends in \<open>RuntimeError\<close> instead of returning, and no
  thread has been started.
\<close>

theorem speak_async_thread_start_raises:
  "speak_async hello no_thread_state =
     (Inl RuntimeError, no_thread_state\<lparr>start_calls := 1\<rparr>)"
  by (simp add: speak_async_def thread_start_def Let_def no_thread_state_def fresh_state_def
      strip_def py_isspace_def hello_def)

theorem speak_async_thread_start_raises_witness:
  "enabled no_thread_state \<and> strip hello \<noteq> [] \<and> \<not> is_playing no_thread_state \<and>
   \<not> start_script no_thread_state (start_calls no_thread_state) \<and>
   fst (speak_async hello no_thread_state) = Inl RuntimeError \<and>
   threads (snd (speak_async hello no_thread_state)) = []"
  using speak_async_thread_start_raises
  by (simp add: no_thread_state_def fresh_state_def strip_def py_isspace_def hello_def)

subsection \<open>Overlapping calls of \<^verbatim>\<open>speak_async\<close>\<close>

lemma play_audio_thread_rest_eq:
  "play_audio_thread_rest p s =
     (case play_audio_sync p s of
        None \<Rightarrow> None
      | Some (r, s1) \<Rightarrow>
          Some (Inr (), snd (play_audio_thread_cleanup p s1)\<lparr>is_playing := False\<rparr>))"
  by (auto simp: play_audio_thread_rest_def play_audio_thread_cleanup_eq
      split: option.splits sum.splits dest: play_audio_sync_no_raise)

text \<open>
  The two steps of a \<open>tts_worker\<close> thread, run one after the other, are the nested
  function \<open>tts_worker\<close> of \<open>speak_async\<close>.
\<close>

lemma tts_worker_split:
  "tts_worker txt s =
     (Inr (),
      case tts_worker_begin txt s of
        (Synthesizing t v p, s1) \<Rightarrow> tts_worker_resume t v p s1
      | (_, s1) \<Rightarrow> s1)"
proof (cases "strip txt = []")
  case True
  then show ?thesis
    by (simp add: tts_worker_def tts_worker_begin_def synthesize_async_def io_try_def
        io_bind_def io_return_def start_play_thread_def)
next
  case False
  show ?thesis
  proof (cases "NamedTemporaryFile s")
    case (Pair q s1)
    then show ?thesis
      using False
      by (cases q)
         (auto simp: tts_worker_def tts_worker_begin_def tts_worker_resume_def
          synthesize_async_def io_try_def io_bind_def io_return_def start_play_thread_def
          thread_start_def synth_finish_eq Let_def
          split: save_outcome.splits option.splits)
  qed
qed

lemmas run_simps =
  tts_worker_begin_def tts_worker_resume_def set_thread_def speak_async_def
  thread_start_def start_play_thread_def synth_finish_eq io_try_def io_bind_def
  io_return_def play_audio_thread_rest_eq NamedTemporaryFile_def
  play_audio_sync_def mixer_music_load_def mixer_music_play_def mixer_call_def Let_def
  os_path_exists_def
  wait_while_busy_busy wait_while_busy_idle wait_while_busy_error time_sleep_def
  play_audio_thread_cleanup_eq strip_def py_isspace_def hello_def fresh_state_def

lemma run_until_playing:
  "run [Call_speak_async hello, Run_thread 0, Run_thread 0, Run_thread 1] fresh_state =
     Some playing_state"
  by (simp add: playing_state_def run_simps)

text \<open>
  Claim C3, as amended. A call of \<open>speak_async\<close> that arrives while \<open>is_playing\<close> is
  set, that is while the playback thread of an earlier call is running, is dropped: it
  changes nothing, and whatever the host and the threads do next goes as if the call
  had not been made, so it adds no call of the synthesis service. A call that arrives
  while \<open>is_playing\<close> is not set, which includes the time an earlier call is still
  synthesizing, is not dropped: with an enabled manager and a text that is not blank it
  starts a new \<open>tts_worker\<close> thread, or raises when that thread cannot be started.
\<close>

theorem speak_async_dropped_while_playing:
  "(is_playing s \<longrightarrow>
      speak_async txt s = (Inr (), s) \<and>
      (\<forall>es. run (Call_speak_async txt # es) s = run es s)) \<and>
   (\<not> is_playing s \<and> enabled s \<and> strip txt \<noteq> [] \<longrightarrow>
      speak_async txt s =
        (if start_script s (start_calls s)
         then (Inr (), s\<lparr>start_calls := Suc (start_calls s),
                        threads := threads s @ [TtsWorker txt]\<rparr>)
         else (Inl RuntimeError, s\<lparr>start_calls := Suc (start_calls s)\<rparr>)))"
  by (simp add: speak_async_def thread_start_def Let_def)

theorem speak_async_dropped_while_playing_witness:
  "run [Call_speak_async hello, Run_thread 0, Run_thread 0, Run_thread 1] fresh_state =
     Some playing_state \<and>
   is_playing playing_state \<and> save_calls playing_state = 1 \<and>
   speak_async world playing_state = (Inr (), playing_state) \<and>
   run [Call_speak_async world, Run_thread 1] playing_state =
     run [Run_thread 1] playing_state \<and>
   map_option save_calls (run [Call_speak_async world, Run_thread 1] playing_state) = Some 1 \<and>
   map_option threads (run [Call_speak_async world, Run_thread 1] playing_state) =
     Some [Finished, Finished] \<and>
   map_option is_playing (run [Call_speak_async world, Run_thread 1] playing_state) =
     Some False"
proof -
  have p: "is_playing playing_state"
    by (simp add: playing_state_def)
  from speak_async_dropped_while_playing [of playing_state world] p
  have d: "speak_async world playing_state = (Inr (), playing_state)"
    "run [Call_speak_async world, Run_thread 1] playing_state =
      run [Run_thread 1] playing_state"
    by blast+
  have "map_option save_calls (run [Run_thread 1] playing_state) = Some 1"
    "map_option threads (run [Run_thread 1] playing_state) = Some [Finished, Finished]"
    "map_option is_playing (run [Run_thread 1] playing_state) = Some False"
    by (simp_all add: playing_state_def run_simps)
  with d p run_until_playing show ?thesis
    by (simp add: playing_state_def)
qed

text \<open>
  Claim C3 as stated fails: after the first call its worker has created the temporary
  file and awaits the save, no synthesis call has been counted yet, and a second call
  starts a second worker; when both workers have run, the synthesis service has been
  called twice.
\<close>

theorem speak_async_not_dropped_while_synthesizing:
  "map_option threads (run [Call_speak_async hello, Run_thread 0] fresh_state) =
     Some [Synthesizing hello ''ru-RU-DariyaNeural'' ''/tmp/tmpa.mp3''] \<and>
   map_option save_calls (run [Call_speak_async hello, Run_thread 0] fresh_state) = Some 0 \<and>
   map_option threads
     (run [Call_speak_async hello, Run_thread 0, Call_speak_async world] fresh_state) =
     Some [Synthesizing hello ''ru-RU-DariyaNeural'' ''/tmp/tmpa.mp3'', TtsWorker world] \<and>
   map_option save_calls
     (run [Call_speak_async hello, Run_thread 0, Call_speak_async world,
           Run_thread 0, Run_thread 1, Run_thread 1] fresh_state) = Some 2"
  by (simp add: run_simps world_def)

end
